theory Spec2Isabelle
  imports Main "HOL-Library.AList"
begin

section \<open>Strings and the regular-expression fragments of the source\<close>

text \<open>
  A JavaScript string is modelled as a \<^typ>\<open>string\<close>: a list of code units below 256
  (the Latin-1 range). On that range the class \<^verbatim>\<open>\s\<close> of a JavaScript regular
  expression, which is also the set that \<^verbatim>\<open>String.prototype.trim\<close> strips, holds
  TAB, LF, VT, FF, CR, SPACE and NO-BREAK SPACE; \<^verbatim>\<open>\w\<close> is \<^verbatim>\<open>[A-Za-z0-9_]\<close>.
\<close>

definition isSpace :: "char \<Rightarrow> bool" where
  "isSpace c = (c \<in> set [CHR 0x09, CHR 0x0A, CHR 0x0B, CHR 0x0C, CHR 0x0D, CHR 0x20, CHR 0xA0])"

definition isUpper :: "char \<Rightarrow> bool" where
  "isUpper c = (let n = (of_char c :: nat) in 65 \<le> n \<and> n \<le> 90)"

definition isLower :: "char \<Rightarrow> bool" where
  "isLower c = (let n = (of_char c :: nat) in 97 \<le> n \<and> n \<le> 122)"

definition isDigit :: "char \<Rightarrow> bool" where
  "isDigit c = (let n = (of_char c :: nat) in 48 \<le> n \<and> n \<le> 57)"

definition isWord :: "char \<Rightarrow> bool" where
  "isWord c = (isLower c \<or> isUpper c \<or> isDigit c \<or> c = CHR ''_'')"

text \<open>
  Under the \<^verbatim>\<open>i\<close> flag (without \<^verbatim>\<open>u\<close>) two code units match when their
  canonical forms agree; a code unit above 127 is never canonicalised to an ASCII one, so
  for the ASCII literals of the source this is ASCII case folding.
\<close>

definition foldCase :: "char \<Rightarrow> char" where
  "foldCase c = (if isUpper c then char_of ((of_char c :: nat) + 32) else c)"

text \<open>
  The atoms that occur in \<^verbatim>\<open>dangerousPatterns\<close>: a literal character (matched
  without regard to case), \<^verbatim>\<open>\s+\<close> and \<^verbatim>\<open>\s*\<close>.
\<close>

datatype atom = Ch char | Ws1 | Ws0

fun matchHere :: "atom list \<Rightarrow> string \<Rightarrow> bool" where
  "matchHere [] s = True"
| "matchHere (Ch c # r) [] = False"
| "matchHere (Ch c # r) (x # xs) = (foldCase x = foldCase c \<and> matchHere r xs)"
| "matchHere (Ws1 # r) [] = False"
| "matchHere (Ws1 # r) (x # xs) = (isSpace x \<and> matchHere (Ws0 # r) xs)"
| "matchHere (Ws0 # r) [] = matchHere r []"
| "matchHere (Ws0 # r) (x # xs) = (matchHere r (x # xs) \<or> (isSpace x \<and> matchHere (Ws0 # r) xs))"

text \<open>\<^verbatim>\<open>RegExp.prototype.test\<close> without the \<^verbatim>\<open>g\<close> flag: a match at some start position.\<close>

fun regexTest :: "atom list \<Rightarrow> string \<Rightarrow> bool" where
  "regexTest p [] = matchHere p []"
| "regexTest p (x # xs) = (matchHere p (x # xs) \<or> regexTest p xs)"

definition lit :: "string \<Rightarrow> atom list" where
  "lit s = map Ch s"

definition dangerousPatterns :: "atom list list" where
  "dangerousPatterns =
    [ lit ''rm'' @ [Ws1] @ lit ''-rf'',
      lit ''rmdir'',
      lit ''del'' @ [Ws1] @ lit ''/s'',
      lit ''format'',
      lit ''mkfs'',
      lit ''dd'' @ [Ws1] @ lit ''if='',
      lit ''>'' @ [Ws0] @ lit ''/dev/'',
      lit ''sudo'',
      lit ''chmod'' @ [Ws1] @ lit ''777'',
      lit ''killall'',
      lit ''shutdown'',
      lit ''reboot'' ]"

definition isDangerous :: "string \<Rightarrow> bool" where
  "isDangerous command = list_ex (\<lambda>pattern. regexTest pattern command) dangerousPatterns"


section \<open>The command executor\<close>

text \<open>Decimal numerals, as the conversion of a number to a string writes them.\<close>

definition digitChar :: "nat \<Rightarrow> char" where
  "digitChar d = char_of (48 + d)"

fun showNat :: "nat \<Rightarrow> string" where
  "showNat n = (if n < 10 then [digitChar n] else showNat (n div 10) @ [digitChar (n mod 10)])"

declare showNat.simps [simp del]

definition showInt :: "int \<Rightarrow> string" where
  "showInt i = (if i < 0 then ''-'' @ showNat (nat (- i)) else showNat (nat i))"

text \<open>\<^verbatim>\<open>String.prototype.trim\<close>, \<^verbatim>\<open>String.prototype.includes\<close> and
  \<^verbatim>\<open>String.prototype.startsWith\<close>.\<close>

definition trim :: "string \<Rightarrow> string" where
  "trim s = rev (dropWhile isSpace (rev (dropWhile isSpace s)))"

definition startsWith :: "string \<Rightarrow> string \<Rightarrow> bool" where
  "startsWith s p = (take (length p) s = p)"

fun includesStr :: "string \<Rightarrow> string \<Rightarrow> bool" where
  "includesStr [] p = (p = [])"
| "includesStr (x # xs) p = (startsWith (x # xs) p \<or> includesStr xs p)"

text \<open>
  The result objects of the executor and of the solution engine are JavaScript objects
  with optional fields. One record holds the fields that occur; an absent or
  \<^verbatim>\<open>null\<close> field is \<^term>\<open>None\<close>, an absent flag is \<^term>\<open>False\<close>. The field
  \<^verbatim>\<open>output\<close> of the source is \<open>outputText\<close> here, \<open>output\<close> being a reserved word.
\<close>

record result =
  success :: bool
  error :: "string option"
  outputText :: "string option"
  stderr :: "string option"
  message :: "string option"
  blocked :: bool
  requiresApproval :: bool
  action :: "string option"
  userAction :: bool

definition emptyResult :: result where
  "emptyResult = \<lparr> success = False, error = None, outputText = None, stderr = None,
     message = None, blocked = False, requiresApproval = False, action = None,
     userAction = False \<rparr>"

text \<open>
  An entry of \<^verbatim>\<open>CommandExecutor.history\<close>. The \<^verbatim>\<open>timestamp\<close> field, a wall-clock
  reading, is left out.
\<close>

record auditRecord =
  log_type :: string
  log_command :: string
  log_success :: bool
  log_error :: "string option"

text \<open>
  The executor object: its \<^verbatim>\<open>platform\<close> (a value of \<^verbatim>\<open>os.platform()\<close>), its
  \<^verbatim>\<open>history\<close>, and, as instrumentation, the list \<open>spawned\<close> of the command lines
  handed to \<^verbatim>\<open>execAsync\<close> so far (oldest first).
\<close>

record executor =
  platform :: string
  history :: "auditRecord list"
  spawned :: "string list"

definition newExecutor :: "string \<Rightarrow> executor" where
  "newExecutor p = \<lparr> platform = p, history = [], spawned = [] \<rparr>"

text \<open>
  What \<^verbatim>\<open>execAsync\<close> does with a command line is outside the program: it resolves with
  the captured \<^verbatim>\<open>stdout\<close> and \<^verbatim>\<open>stderr\<close>, or it rejects (non-zero exit, timeout,
  output above \<^verbatim>\<open>maxBuffer\<close>) with an error carrying a message and possibly the
  partial \<^verbatim>\<open>stdout\<close>. The shell is a parameter of the model; it is asked with the
  number of commands spawned before, so that the same command line may answer
  differently each time.
\<close>

datatype exec_outcome = ExecOk string string | ExecFail string "string option"

type_synonym shell = "nat \<Rightarrow> string \<Rightarrow> exec_outcome"

definition execAsync :: "shell \<Rightarrow> string \<Rightarrow> executor \<Rightarrow> exec_outcome \<times> executor" where
  "execAsync sh command st =
     (sh (length (spawned st)) command, st\<lparr>spawned := spawned st @ [command]\<rparr>)"

definition bs :: string where
  "bs = [CHR 0x5C]"

definition sq :: string where
  "sq = [CHR 0x27]"

definition safeCommands :: "(string \<times> (string \<times> string) list) list" where
  \<open>safeCommands =
    [ (''system-info'',
        [ (''darwin'', ''system_profiler SPHardwareDataType''),
          (''win32'', ''systeminfo''),
          (''linux'', ''lscpu && free -h'') ]),
      (''disk-usage'',
        [ (''darwin'', ''df -h''),
          (''win32'', ''wmic logicaldisk get size,freespace,caption''),
          (''linux'', ''df -h'') ]),
      (''memory-info'',
        [ (''darwin'', ''vm_stat''),
          (''win32'', ''wmic memorychip get capacity''),
          (''linux'', ''free -h'') ]),
      (''process-list'',
        [ (''darwin'', ''ps -ax -o pid,%mem,%cpu,comm | head -20''),
          (''win32'', ''powershell "Get-Process | Select-Object -First 20"''),
          (''linux'', ''ps aux | head -20'') ]),
      (''top-processes'',
        [ (''darwin'', ''ps -amcwwwxo pid,%mem,%cpu,command | head -11''),
          (''win32'', ''powershell "Get-Process | Sort-Object -Property WS -Descending | Select-Object -First 10"''),
          (''linux'', ''ps aux --sort=-%mem | head -10'') ]),
      (''network-info'',
        [ (''darwin'', ''networksetup -listallhardwareports && ifconfig en0''),
          (''win32'', ''ipconfig''),
          (''linux'', ''ip addr'') ]),
      (''dns-servers'',
        [ (''darwin'', ''scutil --dns | grep nameserver | head -5''),
          (''win32'', ''powershell "(Get-DnsClientServerAddress).ServerAddresses"''),
          (''linux'', ''cat /etc/resolv.conf'') ]),
      (''uptime'',
        [ (''darwin'', ''uptime''),
          (''win32'', ''powershell "(Get-Date) - (Get-CimInstance Win32_OperatingSystem).LastBootUpTime"''),
          (''linux'', ''uptime'') ]),
      (''battery'',
        [ (''darwin'', ''pmset -g batt''),
          (''win32'', ''powershell "(Get-WmiObject Win32_Battery).EstimatedChargeRemaining"''),
          (''linux'', ''upower -i /org/freedesktop/UPower/devices/battery_BAT0'') ]),
      (''startup-apps'',
        [ (''darwin'', ''osascript -e '' @ sq @ ''tell application "System Events" to get name of every login item'' @ sq),
          (''win32'', ''powershell "Get-CimInstance Win32_StartupCommand | Select-Object Name, Command"''),
          (''linux'', ''ls ~/.config/autostart'') ]),
      (''installed-apps'',
        [ (''darwin'', ''ls /Applications''),
          (''win32'', ''powershell "Get-ItemProperty HKLM:'' @ bs @ ''Software'' @ bs @ ''Microsoft'' @ bs
              @ ''Windows'' @ bs @ ''CurrentVersion'' @ bs @ ''Uninstall'' @ bs
              @ ''* | Select-Object DisplayName | Select-Object -First 30"''),
          (''linux'', ''dpkg --list | head -30'') ]),
      (''temp-files-size'',
        [ (''darwin'', ''du -sh ~/Library/Caches 2>/dev/null || echo "N/A"''),
          (''win32'', ''powershell "(Get-ChildItem $env:TEMP -Recurse -ErrorAction SilentlyContinue | Measure-Object -Property Length -Sum).Sum / 1MB"''),
          (''linux'', ''du -sh /tmp 2>/dev/null || echo "N/A"'') ]),
      (''browser-processes'',
        [ (''darwin'', ''ps aux | grep -iE "(Chrome|Safari|Firefox)" | grep -v grep | head -10''),
          (''win32'', ''powershell "Get-Process | Where-Object { $_.Name -match '' @ sq
              @ ''chrome|firefox|msedge'' @ sq @ '' } | Select-Object -First 10"''),
          (''linux'', ''ps aux | grep -E "(chrome|firefox)" | grep -v grep | head -10'') ]),
      (''printer-status'',
        [ (''darwin'', ''lpstat -p''),
          (''win32'', ''powershell "Get-Printer | Select-Object Name,PrinterStatus,JobCount"''),
          (''linux'', ''lpstat -p'') ]),
      (''printer-queue'',
        [ (''darwin'', ''lpstat -o''),
          (''win32'', ''powershell "Get-PrintJob -PrinterName *"''),
          (''linux'', ''lpstat -o'') ]) ]\<close>

definition isSafeCommand :: "string \<Rightarrow> bool" where
  "isSafeCommand commandKey = (map_of safeCommands commandKey \<noteq> None)"

text \<open>\<^verbatim>\<open>logCommand\<close>: push, then keep the last 100 entries (\<^verbatim>\<open>slice(-100)\<close>).\<close>

definition logCommand :: "string \<Rightarrow> string \<Rightarrow> bool \<Rightarrow> string option \<Rightarrow> executor \<Rightarrow> executor" where
  "logCommand ty command ok err st =
     (let h = history st @ [\<lparr> log_type = ty, log_command = command,
                              log_success = ok, log_error = err \<rparr>]
      in st\<lparr>history := (if length h > 100 then drop (length h - 100) h else h)\<rparr>)"

text \<open>\<^verbatim>\<open>x?.trim() || null\<close>: an absent or empty value becomes \<^verbatim>\<open>null\<close>.\<close>

definition trimOrNull :: "string option \<Rightarrow> string option" where
  "trimOrNull x = (case x of None \<Rightarrow> None
                   | Some s \<Rightarrow> (if trim s = [] then None else Some (trim s)))"

text \<open>
  \<^verbatim>\<open>runSafeCommand\<close>. The first case below is \<^verbatim>\<open>!this.isSafeCommand(commandKey)\<close>; the
  test \<^verbatim>\<open>!command\<close> holds for a missing entry and for an empty one.
\<close>

definition runSafeCommand :: "shell \<Rightarrow> string \<Rightarrow> executor \<Rightarrow> result \<times> executor" where
  "runSafeCommand sh commandKey st =
     (case map_of safeCommands commandKey of
        None \<Rightarrow> (emptyResult\<lparr>error := Some (''Unknown command: '' @ commandKey)\<rparr>, st)
      | Some commandMap \<Rightarrow>
          (case map_of commandMap (platform st) of
             None \<Rightarrow> (emptyResult\<lparr>error := Some (''Command not supported on '' @ platform st)\<rparr>, st)
           | Some command \<Rightarrow>
               if command = []
               then (emptyResult\<lparr>error := Some (''Command not supported on '' @ platform st)\<rparr>, st)
               else (case execAsync sh command st of
                  (ExecOk out serr, st1) \<Rightarrow>
                     (emptyResult\<lparr>success := True, outputText := Some (trim out),
                        stderr := trimOrNull (Some serr)\<rparr>,
                      logCommand commandKey command True None st1)
                | (ExecFail msg out, st1) \<Rightarrow>
                     (emptyResult\<lparr>error := Some msg, outputText := trimOrNull out\<rparr>,
                      logCommand commandKey command False (Some msg) st1))))"

definition runCustomCommand :: "shell \<Rightarrow> string \<Rightarrow> executor \<Rightarrow> result \<times> executor" where
  "runCustomCommand sh command st =
     (if isDangerous command
      then (emptyResult\<lparr>error := Some ''This command is not allowed for security reasons.'',
              blocked := True\<rparr>, st)
      else (case execAsync sh command st of
              (ExecOk out serr, st1) \<Rightarrow>
                 (emptyResult\<lparr>success := True, outputText := Some (trim out),
                    stderr := trimOrNull (Some serr)\<rparr>,
                  logCommand ''custom'' command True None st1)
            | (ExecFail msg out, st1) \<Rightarrow>
                 (emptyResult\<lparr>error := Some msg, outputText := trimOrNull out\<rparr>,
                  logCommand ''custom'' command False (Some msg) st1)))"

text \<open>The character class \<^verbatim>\<open>[a-zA-Z0-9\s\-_.]\<close> of \<^verbatim>\<open>killProcessByName\<close>; the
  source removes every character outside it.\<close>

definition isSafeNameChar :: "char \<Rightarrow> bool" where
  "isSafeNameChar c = (isLower c \<or> isUpper c \<or> isDigit c \<or> isSpace c
                        \<or> c = CHR ''-'' \<or> c = CHR ''_'' \<or> c = CHR ''.'')"

definition sanitizeName :: "string \<Rightarrow> string" where
  "sanitizeName name = filter isSafeNameChar name"

definition killByNameCommand :: "string \<Rightarrow> string \<Rightarrow> string" where
  \<open>killByNameCommand p safeName =
     (if p = ''win32''
      then ''taskkill /F /IM "'' @ safeName @ ''.exe" 2>nul || taskkill /F /IM "'' @ safeName @ ''" 2>nul''
      else ''pkill -x "'' @ safeName @ ''" || pkill "'' @ safeName @ ''"'')\<close>

definition killProcessByName :: "shell \<Rightarrow> string \<Rightarrow> executor \<Rightarrow> result \<times> executor" where
  "killProcessByName sh name st =
     (let safeName = sanitizeName name;
          command = killByNameCommand (platform st) safeName
      in case execAsync sh command st of
           (ExecOk out serr, st1) \<Rightarrow>
              (emptyResult\<lparr>success := True, message := Some (safeName @ '' terminated'')\<rparr>,
               logCommand ''kill-by-name'' command True None st1)
         | (ExecFail msg out, st1) \<Rightarrow>
              if includesStr msg ''No matching''
              then (emptyResult\<lparr>success := True, message := Some (safeName @ '' is not running'')\<rparr>, st1)
              else (emptyResult\<lparr>error := Some msg\<rparr>, st1))"


text \<open>A run of \<^verbatim>\<open>logCommand\<close> calls, one for each record of a list, in order.\<close>

definition logAll :: "auditRecord list \<Rightarrow> executor \<Rightarrow> executor" where
  "logAll rs st =
     foldl (\<lambda>s r. logCommand (log_type r) (log_command r) (log_success r) (log_error r) s) st rs"

definition sampleRecord :: "nat \<Rightarrow> auditRecord" where
  "sampleRecord i = \<lparr> log_type = ''custom'', log_command = ''echo '' @ showNat i,
                        log_success = True, log_error = None \<rparr>"

section \<open>The solution engine\<close>

text \<open>
  A solution arrives over IPC and may be any JavaScript value. The values that matter
  here: \<^verbatim>\<open>undefined\<close>, \<^verbatim>\<open>null\<close>, booleans, integral numbers, strings and objects (an
  object as the list of its own properties).
\<close>

datatype jsval = JUndefined | JNull | JBool bool | JNum int | JStr string
  | JObj "(string \<times> jsval) list"

fun truthy :: "jsval \<Rightarrow> bool" where
  "truthy JUndefined = False"
| "truthy JNull = False"
| "truthy (JBool b) = b"
| "truthy (JNum n) = (n \<noteq> 0)"
| "truthy (JStr s) = (s \<noteq> [])"
| "truthy (JObj fs) = True"

text \<open>
  Reading a property. The names read by the engine (\<^verbatim>\<open>type\<close>, \<^verbatim>\<open>pid\<close>,
  \<^verbatim>\<open>processName\<close>, \<^verbatim>\<open>cacheType\<close>, \<^verbatim>\<open>serviceName\<close>, \<^verbatim>\<open>action\<close>) are no
  properties of a primitive value, which therefore answers \<^verbatim>\<open>undefined\<close>. The source
  reads a property of \<^verbatim>\<open>undefined\<close> or \<^verbatim>\<open>null\<close> nowhere: the guard of \<^verbatim>\<open>execute\<close>
  comes first.
\<close>

fun getProp :: "jsval \<Rightarrow> string \<Rightarrow> jsval" where
  "getProp (JObj fs) k = (case map_of fs k of None \<Rightarrow> JUndefined | Some v \<Rightarrow> v)"
| "getProp v k = JUndefined"

text \<open>
  The conversion of a value to a string, as a template literal does it, for numbers of
  magnitude below \<open>10\<^sup>2\<^sup>1\<close> (written in decimal; a larger one is written with an
  exponent) and for plain objects (one whose own \<^verbatim>\<open>toString\<close> is not callable makes
  the conversion throw). It is read for the process id of the kill command, for a
  service name and for an unknown type only.
\<close>

fun toStr :: "jsval \<Rightarrow> string" where
  "toStr JUndefined = ''undefined''"
| "toStr JNull = ''null''"
| "toStr (JBool b) = (if b then ''true'' else ''false'')"
| "toStr (JNum n) = showInt n"
| "toStr (JStr s) = s"
| "toStr (JObj fs) = ''[object Object]''"

text \<open>
  An entry of \<^verbatim>\<open>SolutionEngine.auditLog\<close> (without its \<^verbatim>\<open>timestamp\<close>), and the engine:
  its \<^verbatim>\<open>platform\<close>, its \<^verbatim>\<open>auditLog\<close> and, as instrumentation, the command lines
  handed to \<^verbatim>\<open>execPromise\<close> so far.
\<close>

record logEntry =
  le_action :: string
  le_details :: jsval
  le_platform :: string

record engine =
  se_platform :: string
  auditLog :: "logEntry list"
  se_spawned :: "string list"

definition newEngine :: "string \<Rightarrow> engine" where
  "newEngine p = \<lparr> se_platform = p, auditLog = [], se_spawned = [] \<rparr>"

definition log :: "string \<Rightarrow> jsval \<Rightarrow> engine \<Rightarrow> engine" where
  "log act details st =
     st\<lparr>auditLog := auditLog st @ [\<lparr> le_action = act, le_details = details,
                                       le_platform = se_platform st \<rparr>]\<rparr>"

definition execPromise :: "shell \<Rightarrow> string \<Rightarrow> engine \<Rightarrow> exec_outcome \<times> engine" where
  "execPromise sh command st =
     (sh (length (se_spawned st)) command, st\<lparr>se_spawned := se_spawned st @ [command]\<rparr>)"

definition dangerousTypes :: "string list" where
  "dangerousTypes = [''delete-system-file'', ''modify-registry'', ''format-drive'', ''disable-security'']"

definition isSafe :: "jsval \<Rightarrow> bool" where
  "isSafe solution = (getProp solution ''type'' \<notin> set (map JStr dangerousTypes))"

text \<open>
  The handlers. Each returns its result object, or throws an \<^verbatim>\<open>Error\<close> whose message
  is the \<^term>\<open>Inl\<close> value. The \<^verbatim>\<open>message\<close> and \<^verbatim>\<open>details\<close> fields of a handler's
  result, texts for the user, are left out; \<^verbatim>\<open>success\<close>, \<^verbatim>\<open>error\<close>, \<^verbatim>\<open>action\<close> and
  \<^verbatim>\<open>userAction\<close> are kept.
\<close>

type_synonym outcome = "(string + result) \<times> engine"

definition okResult :: "string option \<Rightarrow> bool \<Rightarrow> result" where
  "okResult act ua = emptyResult\<lparr>success := True, action := act, userAction := ua\<rparr>"

definition se_killProcess :: "shell \<Rightarrow> jsval \<Rightarrow> jsval \<Rightarrow> engine \<Rightarrow> outcome" where
  "se_killProcess sh pid processName st =
     (if \<not> truthy pid then (Inl ''Process ID required'', st)
      else let command =
                 (if se_platform st = ''darwin'' \<or> se_platform st = ''linux''
                  then ''kill -9 '' @ toStr pid
                  else ''taskkill /PID '' @ toStr pid @ '' /F'')
           in case execPromise sh command st of
                (ExecOk out serr, st1) \<Rightarrow> (Inr (okResult (Some ''process-killed'') False), st1)
              | (ExecFail msg out, st1) \<Rightarrow> (Inl (''Failed to close process: '' @ msg), st1))"

text \<open>A list of commands run one after the other, each in its own \<^verbatim>\<open>try\<close>; the
  answer lists which succeeded.\<close>

fun runEach :: "shell \<Rightarrow> string list \<Rightarrow> engine \<Rightarrow> bool list \<times> engine" where
  "runEach sh [] st = ([], st)"
| "runEach sh (c # cs) st =
     (case execPromise sh c st of
        (ExecOk out serr, st1) \<Rightarrow> (case runEach sh cs st1 of (rs, st2) \<Rightarrow> (True # rs, st2))
      | (ExecFail msg out, st1) \<Rightarrow> (case runEach sh cs st1 of (rs, st2) \<Rightarrow> (False # rs, st2)))"

definition clearCacheCommands :: "string \<Rightarrow> jsval \<Rightarrow> string list" where
  \<open>clearCacheCommands p cacheType =
     (if p = ''darwin'' then
        (if cacheType = JStr ''all'' \<or> cacheType = JStr ''system''
         then [''sudo purge 2>/dev/null || echo "Requires admin"''] else [])
        @ (if cacheType = JStr ''all'' \<or> cacheType = JStr ''dns''
           then [''sudo dscacheutil -flushcache 2>/dev/null; sudo killall -HUP mDNSResponder 2>/dev/null || echo "DNS flushed"'']
           else [])
      else if p = ''win32'' then
        (if cacheType = JStr ''all'' \<or> cacheType = JStr ''temp''
         then [''del /q/f/s %TEMP%'' @ bs @ ''* 2>nul''] else [])
        @ (if cacheType = JStr ''all'' \<or> cacheType = JStr ''dns''
           then [''ipconfig /flushdns''] else [])
      else [])\<close>

definition se_clearCache :: "shell \<Rightarrow> jsval \<Rightarrow> engine \<Rightarrow> outcome" where
  "se_clearCache sh cacheTypeArg st =
     (let cacheType = (if cacheTypeArg = JUndefined then JStr ''all'' else cacheTypeArg)
      in case runEach sh (clearCacheCommands (se_platform st) cacheType) st of
           (results, st1) \<Rightarrow>
              (Inr (emptyResult\<lparr>success := list_all (\<lambda>r. r) results,
                                 action := Some ''cache-cleared''\<rparr>), st1))"

definition se_flushDNS :: "shell \<Rightarrow> engine \<Rightarrow> outcome" where
  "se_flushDNS sh st =
     (let command =
            (if se_platform st = ''darwin''
             then ''sudo dscacheutil -flushcache; sudo killall -HUP mDNSResponder''
             else if se_platform st = ''win32'' then ''ipconfig /flushdns''
             else ''sudo systemctl restart systemd-resolved'')
      in case execPromise sh command st of
           (ExecOk out serr, st1) \<Rightarrow> (Inr (okResult (Some ''dns-flushed'') False), st1)
         | (ExecFail msg out, st1) \<Rightarrow> (Inl (''Failed to flush DNS: '' @ msg), st1))"

definition se_restartService :: "shell \<Rightarrow> jsval \<Rightarrow> engine \<Rightarrow> outcome" where
  \<open>se_restartService sh serviceName st =
     (if \<not> truthy serviceName then (Inl ''Service name required'', st)
      else let command =
                 (if se_platform st = ''darwin''
                  then ''launchctl kickstart -k system/'' @ toStr serviceName
                  else if se_platform st = ''win32''
                  then ''net stop "'' @ toStr serviceName @ ''" && net start "'' @ toStr serviceName @ ''"''
                  else ''sudo systemctl restart '' @ toStr serviceName)
           in case execPromise sh command st of
                (ExecOk out serr, st1) \<Rightarrow> (Inr (okResult (Some ''service-restarted'') False), st1)
              | (ExecFail msg out, st1) \<Rightarrow> (Inl (''Failed to restart service: '' @ msg), st1))\<close>

definition se_optimizeStartup :: "shell \<Rightarrow> engine \<Rightarrow> outcome" where
  \<open>se_optimizeStartup sh st =
     (if se_platform st \<noteq> ''darwin'' \<and> se_platform st \<noteq> ''win32''
      then (Inr (emptyResult\<lparr>action := Some ''startup-not-available''\<rparr>), st)
      else let command =
                 (if se_platform st = ''darwin''
                  then ''open "x-apple.systempreferences:com.apple.LoginItems-Settings.extension"''
                  else ''taskmgr /7'')
           in case execPromise sh command st of
                (ExecOk out serr, st1) \<Rightarrow> (Inr (okResult (Some ''startup-manager-opened'') True), st1)
              | (ExecFail msg out, st1) \<Rightarrow> (Inl (''Failed to open startup manager: '' @ msg), st1))\<close>

definition se_diskCleanup :: "shell \<Rightarrow> engine \<Rightarrow> outcome" where
  \<open>se_diskCleanup sh st =
     (if se_platform st = ''darwin'' then
        (case execPromise sh ''open -a "System Preferences" && sleep 1 && open "x-apple.systempreferences:com.apple.settings.Storage"'' st of
           (ExecOk out serr, st1) \<Rightarrow> (Inr (okResult (Some ''storage-manager-opened'') True), st1)
         | (ExecFail msg out, st1) \<Rightarrow> (Inl (''Failed to open storage manager: '' @ msg), st1))
      else if se_platform st = ''win32'' then
        (case execPromise sh ''cleanmgr'' st of
           (ExecOk out serr, st1) \<Rightarrow> (Inr (okResult (Some ''disk-cleanup-opened'') True), st1)
         | (ExecFail msg out, st1) \<Rightarrow> (Inl (''Failed to open disk cleanup: '' @ msg), st1))
      else (Inr emptyResult, st))\<close>

definition fixNetworkCommands :: "string \<Rightarrow> string list" where
  "fixNetworkCommands p =
     (if p = ''darwin''
      then [''sudo dscacheutil -flushcache; sudo killall -HUP mDNSResponder'',
            ''sudo ipconfig set en0 DHCP'']
      else if p = ''win32''
      then [''ipconfig /flushdns'', ''ipconfig /release'', ''ipconfig /renew'',
            ''netsh winsock reset'']
      else [])"

definition se_fixNetwork :: "shell \<Rightarrow> jsval \<Rightarrow> engine \<Rightarrow> outcome" where
  "se_fixNetwork sh act st =
     (case runEach sh (fixNetworkCommands (se_platform st)) st of
        (results, st1) \<Rightarrow>
           (Inr (emptyResult\<lparr>success := list_ex (\<lambda>r. r) results,
                              action := Some ''network-reset'', userAction := True\<rparr>), st1))"

definition se_emptyTrash :: "shell \<Rightarrow> engine \<Rightarrow> outcome" where
  "se_emptyTrash sh st =
     (let command =
            (if se_platform st = ''darwin'' then ''rm -rf ~/.Trash/*''
             else if se_platform st = ''win32''
             then ''rd /s /q %systemdrive%'' @ bs @ ''$Recycle.Bin''
             else ''rm -rf ~/.local/share/Trash/*'')
      in case execPromise sh command st of
           (ExecOk out serr, st1) \<Rightarrow> (Inr (okResult (Some ''trash-emptied'') False), st1)
         | (ExecFail msg out, st1) \<Rightarrow> (Inl (''Failed to empty trash: '' @ msg), st1))"

definition se_suggestRestart :: "engine \<Rightarrow> outcome" where
  "se_suggestRestart st =
     (if se_platform st = ''darwin'' \<or> se_platform st = ''win32''
      then (Inr (okResult None True), st)
      else (Inr (okResult None False), st))"

definition se_suggestCloseApp :: "shell \<Rightarrow> engine \<Rightarrow> outcome" where
  \<open>se_suggestCloseApp sh st =
     (if se_platform st = ''darwin'' then
        (case execPromise sh (''osascript -e "tell application '' @ bs @ ''"System Events'' @ bs
                 @ ''" to key code 53 using {command down, option down}"'') st of
           (ExecOk out serr, st1) \<Rightarrow> (Inr (okResult None True), st1)
         | (ExecFail msg out, st1) \<Rightarrow> (Inr (okResult None False), st1))
      else (Inr (okResult None False), st))\<close>

text \<open>The \<^verbatim>\<open>switch\<close> of \<^verbatim>\<open>execute\<close>; its cases compare with \<^verbatim>\<open>===\<close>.\<close>

definition dispatch :: "shell \<Rightarrow> jsval \<Rightarrow> engine \<Rightarrow> outcome" where
  "dispatch sh solution st =
     (let ty = getProp solution ''type'' in
      if ty = JStr ''kill-process''
        then se_killProcess sh (getProp solution ''pid'') (getProp solution ''processName'') st
      else if ty = JStr ''clear-cache'' then se_clearCache sh (getProp solution ''cacheType'') st
      else if ty = JStr ''flush-dns'' then se_flushDNS sh st
      else if ty = JStr ''suggest-restart'' then se_suggestRestart st
      else if ty = JStr ''suggest-close-app'' then se_suggestCloseApp sh st
      else if ty = JStr ''suggest-cleanup'' then se_diskCleanup sh st
      else if ty = JStr ''suggest-diagnostics'' then (Inr (okResult None False), st)
      else if ty = JStr ''restart-service'' then se_restartService sh (getProp solution ''serviceName'') st
      else if ty = JStr ''optimize-startup'' then se_optimizeStartup sh st
      else if ty = JStr ''disk-cleanup'' then se_diskCleanup sh st
      else if ty = JStr ''fix-network'' then se_fixNetwork sh (getProp solution ''action'') st
      else if ty = JStr ''empty-trash'' then se_emptyTrash sh st
      else (Inr (emptyResult\<lparr>error := Some (''Unknown solution type: '' @ toStr ty)\<rparr>), st))"

text \<open>
  \<^verbatim>\<open>SolutionEngine.execute\<close>. The promise it returns rejects with an \<^verbatim>\<open>Error\<close> (\<^term>\<open>Inl\<close>
  of its message) or resolves with a result object (\<^term>\<open>Inr\<close>).
\<close>

definition execute :: "shell \<Rightarrow> jsval \<Rightarrow> engine \<Rightarrow> outcome" where
  "execute sh solution st =
     (if \<not> truthy solution \<or> \<not> truthy (getProp solution ''type'')
      then (Inl ''Invalid solution provided'', st)
      else if \<not> isSafe solution
      then (Inr (emptyResult\<lparr>
                   error := Some ''This action requires additional approval due to safety concerns'',
                   requiresApproval := True\<rparr>), st)
      else (case dispatch sh solution (log ''execute'' solution st) of
              (Inr r, st1) \<Rightarrow> (Inr r, st1)
            | (Inl msg, st1) \<Rightarrow>
                (Inr (emptyResult\<lparr>error := Some msg\<rparr>),
                 log ''error'' (JObj [(''solution'', solution), (''error'', JStr msg)]) st1)))"


text \<open>The result object with which the promise of \<^verbatim>\<open>execute\<close> resolved, if it did.\<close>

definition resultOf :: "outcome \<Rightarrow> result option" where
  "resultOf x = (case fst x of Inl e \<Rightarrow> None | Inr r \<Rightarrow> Some r)"


section \<open>The action parser\<close>

text \<open>
  An action is the object that \<^verbatim>\<open>parseAIResponse\<close> fills by \<^verbatim>\<open>action[key] = value\<close>:
  the list of its own properties in the order of their creation. Assigning to
  \<^verbatim>\<open>__proto__\<close> reaches the setter of \<^verbatim>\<open>Object.prototype\<close>, which ignores a string:
  no property is created.
\<close>

type_synonym action = "(string \<times> string) list"

definition setProp :: "string \<Rightarrow> string \<Rightarrow> action \<Rightarrow> action" where
  "setProp k v a = (if k = ''__proto__'' then a else AList.update k v a)"

definition dq :: char where
  "dq = CHR 0x22"

text \<open>
  \<^verbatim>\<open>/(\w+)="([^"]+)"/\<close> tried at the head of a string: the key, the value and what
  follows the match. Both repetitions are greedy and a shorter repetition never helps:
  the character after a shorter run is of the class just left.
\<close>

definition matchParam :: "string \<Rightarrow> (string \<times> string \<times> string) option" where
  "matchParam s =
     (let key = takeWhile isWord s; r = dropWhile isWord s
      in if key = [] \<or> \<not> startsWith r [CHR ''='', dq] then None
         else let r2 = drop 2 r;
                  v = takeWhile (\<lambda>c. c \<noteq> dq) r2;
                  r3 = dropWhile (\<lambda>c. c \<noteq> dq) r2
              in if v = [] \<or> r3 = [] then None else Some (key, v, tl r3))"

text \<open>\<^verbatim>\<open>exec\<close> of a global regular expression: the leftmost start position at which
  the expression matches.\<close>

fun execParam :: "string \<Rightarrow> (string \<times> string \<times> string) option" where
  "execParam [] = None"
| "execParam (x # xs) =
     (case matchParam (x # xs) of Some m \<Rightarrow> Some m | None \<Rightarrow> execParam xs)"

lemma matchParam_shorter: "matchParam s = Some (k, v, rest) \<Longrightarrow> length rest < length s"
proof -
  assume a: "matchParam s = Some (k, v, rest)"
  let ?r = "dropWhile isWord s"
  let ?r3 = "dropWhile (\<lambda>c. c \<noteq> dq) (drop 2 ?r)"
  from a have r3: "?r3 \<noteq> []" and rest: "rest = tl ?r3"
    by (auto simp: matchParam_def Let_def split: if_splits)
  have "length ?r3 \<le> length (drop 2 ?r)" by (rule length_dropWhile_le)
  moreover have "length (drop 2 ?r) \<le> length ?r" by simp
  moreover have "length ?r \<le> length s" by (rule length_dropWhile_le)
  moreover have "length rest < length ?r3" using r3 rest by (cases ?r3) simp_all
  ultimately show ?thesis by linarith
qed

lemma execParam_shorter: "execParam s = Some (k, v, rest) \<Longrightarrow> length rest < length s"
proof (induction s)
  case Nil
  then show ?case by simp
next
  case (Cons x xs)
  show ?case
  proof (cases "matchParam (x # xs)")
    case None
    with Cons show ?thesis by simp
  next
    case (Some m)
    with Cons.prems have "matchParam (x # xs) = Some (k, v, rest)" by simp
    then show ?thesis by (rule matchParam_shorter)
  qed
qed

text \<open>The inner \<^verbatim>\<open>while\<close> loop: every parameter of the tag's content, in order.\<close>

function paramLoop :: "string \<Rightarrow> action \<Rightarrow> action" where
  "paramLoop s a =
     (case execParam s of
        None \<Rightarrow> a
      | Some (k, v, rest) \<Rightarrow> paramLoop rest (setProp k v a))"
  by pat_completeness auto
termination
  by (relation "measure (\<lambda>(s, a). length s)") (auto dest: execParam_shorter)

declare paramLoop.simps [simp del]

text \<open>
  \<^verbatim>\<open>/\[ACTION:\s*([^\]]+)\]/\<close> tried at the head of a string: the matched text, the
  group and what follows the match. After the literal the match runs to the first
  \<^verbatim>\<open>]\<close>, which must exist and must not come at once. The group is the text before
  that bracket without its leading white space; when that text is white space only,
  \<^verbatim>\<open>\s*\<close> gives back one character and the group is the last of them.
\<close>

definition notClose :: "char \<Rightarrow> bool" where
  "notClose c = (c \<noteq> CHR '']'')"

definition matchActionBlock :: "string \<Rightarrow> (string \<times> string \<times> string) option" where
  "matchActionBlock s =
     (if \<not> startsWith s ''[ACTION:'' then None
      else let r = drop 8 s;
               body = takeWhile notClose r;
               r2 = dropWhile notClose r
           in if body = [] \<or> r2 = [] then None
              else Some (''[ACTION:'' @ body @ '']'',
                         (if dropWhile isSpace body = [] then [last body]
                          else dropWhile isSpace body),
                         tl r2))"

fun execActionBlock :: "string \<Rightarrow> (string \<times> string \<times> string) option" where
  "execActionBlock [] = None"
| "execActionBlock (x # xs) =
     (case matchActionBlock (x # xs) of Some m \<Rightarrow> Some m | None \<Rightarrow> execActionBlock xs)"

text \<open>\<^verbatim>\<open>text.replace(tag, '')\<close> with a string pattern: the first occurrence goes.\<close>

fun replaceFirst :: "string \<Rightarrow> string \<Rightarrow> string" where
  "replaceFirst [] m = []"
| "replaceFirst (x # xs) m =
     (if startsWith (x # xs) m then drop (length m) (x # xs) else x # replaceFirst xs m)"

lemma matchActionBlock_decomp:
  "matchActionBlock s = Some (m, g, rest) \<Longrightarrow> s = m @ rest \<and> m \<noteq> []"
proof -
  assume a: "matchActionBlock s = Some (m, g, rest)"
  let ?r = "drop 8 s"
  from a have st: "startsWith s ''[ACTION:''"
    and r2: "dropWhile notClose ?r \<noteq> []"
    and m: "m = ''[ACTION:'' @ takeWhile notClose ?r @ '']''"
    and rest: "rest = tl (dropWhile notClose ?r)"
    by (auto simp: matchActionBlock_def Let_def split: if_splits)
  from r2 have "hd (dropWhile notClose ?r) = CHR '']''"
    using hd_dropWhile [of notClose ?r] by (simp add: notClose_def)
  with r2 rest have dw: "dropWhile notClose ?r = CHR '']'' # rest"
    by (cases "dropWhile notClose ?r") simp_all
  have "s = take 8 s @ ?r" by simp
  also have "take 8 s = ''[ACTION:''"
  proof -
    have "take (length ''[ACTION:'') s = ''[ACTION:''" using st unfolding startsWith_def .
    moreover have "length ''[ACTION:'' = (8::nat)" by simp
    ultimately show ?thesis by (simp only:)
  qed
  also have "?r = takeWhile notClose ?r @ dropWhile notClose ?r" by simp
  finally have "s = ''[ACTION:'' @ takeWhile notClose ?r @ CHR '']'' # rest"
    using dw by simp
  with m show ?thesis by simp
qed

lemma execActionBlock_decomp:
  "execActionBlock s = Some (m, g, rest) \<Longrightarrow> \<exists>pre. s = pre @ m @ rest \<and> m \<noteq> []"
proof (induction s)
  case Nil
  then show ?case by simp
next
  case (Cons x xs)
  show ?case
  proof (cases "matchActionBlock (x # xs)")
    case None
    with Cons obtain pre where "xs = pre @ m @ rest \<and> m \<noteq> []" by auto
    then have "x # xs = (x # pre) @ m @ rest \<and> m \<noteq> []" by simp
    then show ?thesis by blast
  next
    case (Some r)
    with Cons.prems have "matchActionBlock (x # xs) = Some (m, g, rest)" by simp
    then have "x # xs = [] @ m @ rest \<and> m \<noteq> []" by (simp add: matchActionBlock_decomp)
    then show ?thesis by blast
  qed
qed

lemma execActionBlock_shorter:
  "execActionBlock s = Some (m, g, rest) \<Longrightarrow> length rest < length s"
  by (drule execActionBlock_decomp) auto

definition hasType :: "action \<Rightarrow> bool" where
  "hasType a = (case map_of a ''type'' of None \<Rightarrow> False | Some v \<Rightarrow> v \<noteq> [])"

text \<open>
  The outer \<^verbatim>\<open>while\<close> loop over the matches in \<^verbatim>\<open>responseText\<close>; \<open>rest\<close> is the
  part of \<^verbatim>\<open>responseText\<close> from \<^verbatim>\<open>lastIndex\<close> on.
\<close>

function parseLoop :: "string \<Rightarrow> string \<Rightarrow> action list \<Rightarrow> string \<times> action list" where
  "parseLoop rest text actions =
     (case execActionBlock rest of
        None \<Rightarrow> (text, actions)
      | Some (blockMatch, actionContent, rest') \<Rightarrow>
          (let a = paramLoop actionContent []
           in parseLoop rest' (replaceFirst text blockMatch)
                (if hasType a then actions @ [a] else actions)))"
  by pat_completeness auto
termination
  by (relation "measure (\<lambda>(rest, text, actions). length rest)")
     (auto dest: execActionBlock_shorter)

declare parseLoop.simps [simp del]

definition parseAIResponse :: "string \<Rightarrow> string \<times> action list" where
  "parseAIResponse responseText =
     (case parseLoop responseText responseText [] of
        (text, actions) \<Rightarrow> (trim text, actions))"

text \<open>The successive matches of the two regular expressions, listed on their own:
  the tags of a response (matched text and group), and the parameters of a tag's
  content.\<close>

function actionBlocks :: "string \<Rightarrow> (string \<times> string) list" where
  "actionBlocks s =
     (case execActionBlock s of
        None \<Rightarrow> []
      | Some (m, g, rest) \<Rightarrow> (m, g) # actionBlocks rest)"
  by pat_completeness auto
termination
  by (relation "measure length") (auto dest: execActionBlock_shorter)

declare actionBlocks.simps [simp del]

function paramMatches :: "string \<Rightarrow> (string \<times> string) list" where
  "paramMatches s =
     (case execParam s of
        None \<Rightarrow> []
      | Some (k, v, rest) \<Rightarrow> (k, v) # paramMatches rest)"
  by pat_completeness auto
termination
  by (relation "measure length") (auto dest: execParam_shorter)

declare paramMatches.simps [simp del]

definition carriesType :: "string \<Rightarrow> bool" where
  "carriesType g = (''type'' \<in> set (map fst (paramMatches g)))"


section \<open>The renderer: the agentic loop\<close>

text \<open>
  The renderer reaches the backend and the main process through \<^verbatim>\<open>window.relay\<close>. What
  these calls answer is outside the renderer: \<^verbatim>\<open>chat\<close> resolves with a response object
  (with a truthy \<^verbatim>\<open>error\<close>, or with a \<^verbatim>\<open>text\<close> and possibly \<^verbatim>\<open>actions\<close>) or rejects;
  \<^verbatim>\<open>runSafeCommand\<close> resolves with a result object or rejects; \<^verbatim>\<open>runDeepScan\<close> resolves
  with its error count and the applications of its crash reports (the main process
  lists five reports at most; the model takes any list), or rejects. The answers are
  parameters of the model, asked with the number of calls made before. A rejection of
  \<^verbatim>\<open>chat\<close> stands for anything thrown inside the \<^verbatim>\<open>try\<close> of
  \<^verbatim>\<open>processSystemMessage\<close>: the \<^verbatim>\<open>catch\<close> leaves the same state.
\<close>

datatype chat_response = ChatThrows | ChatError | ChatOk string "action list"

datatype ipc_result = IpcThrows string | IpcResult result

datatype deep_result = DeepThrows string | DeepResult nat "string list"

record relay =
  chat :: "nat \<Rightarrow> string \<Rightarrow> chat_response"
  runSafe :: "nat \<Rightarrow> string \<Rightarrow> ipc_result"
  runDeepScan :: "nat \<Rightarrow> deep_result"

text \<open>
  A call through \<^verbatim>\<open>window.relay\<close>, with the \<^verbatim>\<open>stepCount\<close> of the function that makes
  it; and a message of the chat container (content, sender, action buttons).
\<close>

datatype relay_call = ChatCall nat string | SafeCommandCall nat string | DeepScanCall nat

datatype message = Message string string "action list"

text \<open>
  The state of \<^verbatim>\<open>RelayApp\<close> that the loop reads and writes: \<^verbatim>\<open>isProcessing\<close>,
  \<^verbatim>\<open>systemContext.lastQueryResult\<close> (type and output), the messages added to the chat
  container and the status line; and, as instrumentation, the calls made through
  \<^verbatim>\<open>window.relay\<close> so far (oldest first). The typing indicator is left out, and so are
  the emoji that open three of the messages, which lie outside the modelled code units.
\<close>

record app =
  isProcessing :: bool
  lastQueryResult :: "(string \<times> string) option"
  messages :: "message list"
  status :: "string \<times> string"
  calls :: "relay_call list"

definition MAX_AGENTIC_STEPS :: nat where
  "MAX_AGENTIC_STEPS = 10"

definition summaryMessage :: string where
  "summaryMessage = ''I've run several diagnostics but haven't pinpointed the issue yet. Let me summarize what I found and we can discuss next steps.''"

definition addMessage :: "string \<Rightarrow> string \<Rightarrow> action list \<Rightarrow> app \<Rightarrow> app" where
  "addMessage content sender actions st =
     st\<lparr>messages := messages st @ [Message content sender actions]\<rparr>"

definition setStatus :: "string \<Rightarrow> string \<Rightarrow> app \<Rightarrow> app" where
  "setStatus kind txt st = st\<lparr>status := (kind, txt)\<rparr>"

definition actionType :: "action \<Rightarrow> string option" where
  "actionType a = map_of a ''type''"

text \<open>\<^verbatim>\<open>a.type === 'query-system' && a.queryType\<close>, and \<^verbatim>\<open>a.type === 'run-deep-scan'\<close>.\<close>

definition isQueryAction :: "action \<Rightarrow> bool" where
  "isQueryAction a = (actionType a = Some ''query-system''
                      \<and> (case map_of a ''queryType'' of None \<Rightarrow> False | Some v \<Rightarrow> v \<noteq> []))"

definition isDeepScanAction :: "action \<Rightarrow> bool" where
  "isDeepScanAction a = (actionType a = Some ''run-deep-scan'')"

definition isAutoExec :: "action \<Rightarrow> bool" where
  "isAutoExec a = (actionType a = Some ''query-system'' \<or> actionType a = Some ''run-deep-scan'')"

text \<open>\<^verbatim>\<open>action.queryType\<close> as it is written into a template literal and sent over IPC;
  a missing property reads \<^verbatim>\<open>undefined\<close>.\<close>

definition queryTypeOf :: "action \<Rightarrow> string" where
  "queryTypeOf a = (case map_of a ''queryType'' of None \<Rightarrow> ''undefined'' | Some v \<Rightarrow> v)"

definition queryLabels :: "(string \<times> string) list" where
  "queryLabels =
    [ (''system-info'', ''Checking system info''),
      (''disk-usage'', ''Checking disk usage''),
      (''memory-info'', ''Checking memory''),
      (''process-list'', ''Getting process list''),
      (''top-processes'', ''Finding top memory users''),
      (''network-info'', ''Checking network''),
      (''uptime'', ''Checking uptime''),
      (''battery'', ''Checking battery''),
      (''startup-apps'', ''Getting startup apps''),
      (''installed-apps'', ''Getting installed apps''),
      (''temp-files-size'', ''Checking temp files''),
      (''browser-processes'', ''Finding browser processes''),
      (''printer-status'', ''Checking printer status''),
      (''printer-queue'', ''Checking print queue'') ]"

text \<open>
  The status text of a query. The lookup is among the labels listed; for a
  \<^verbatim>\<open>queryType\<close> that names an inherited property of an object (\<^verbatim>\<open>constructor\<close>, say)
  the source shows that property instead of "Gathering info". Only the status line
  reads it.
\<close>

definition queryLabel :: "action \<Rightarrow> string" where
  "queryLabel a = (case map_of queryLabels (queryTypeOf a) of
                     None \<Rightarrow> ''Gathering info'' | Some l \<Rightarrow> l)"

fun joinWith :: "string \<Rightarrow> string list \<Rightarrow> string" where
  "joinWith sep [] = []"
| "joinWith sep [x] = x"
| "joinWith sep (x # y # ys) = x @ sep @ joinWith sep (y # ys)"

definition truthyField :: "string option \<Rightarrow> bool" where
  "truthyField x = (case x of None \<Rightarrow> False | Some s \<Rightarrow> s \<noteq> [])"

text \<open>The string held by a field that was found truthy.\<close>

definition fieldText :: "string option \<Rightarrow> string" where
  "fieldText x = (case x of None \<Rightarrow> [] | Some s \<Rightarrow> s)"

definition systemResultOutput :: "string \<Rightarrow> string \<Rightarrow> string" where
  \<open>systemResultOutput qt out = ''[SYSTEM_RESULT: queryType="'' @ qt @ ''" output="'' @ out @ ''"]''\<close>

definition systemResultError :: "string \<Rightarrow> string \<Rightarrow> string" where
  \<open>systemResultError qt err = ''[SYSTEM_RESULT: queryType="'' @ qt @ ''" error="'' @ err @ ''"]''\<close>

definition deepScanSummary :: "nat \<Rightarrow> string list \<Rightarrow> string" where
  "deepScanSummary errorCount crashApps =
     ''Errors: '' @ showNat errorCount @ '', Crashes: '' @ showNat (length crashApps) @ ''. ''
     @ (if length crashApps > 0 then ''Crashing apps: '' @ joinWith '', '' crashApps @ ''. '' else [])
     @ (if errorCount = 0 \<and> length crashApps = 0 then ''System logs are clean.'' else [])"

definition callRelay :: "relay_call \<Rightarrow> app \<Rightarrow> app" where
  "callRelay c st = st\<lparr>calls := calls st @ [c]\<rparr>"

text \<open>
  \<^verbatim>\<open>processSystemMessage\<close>, \<^verbatim>\<open>executeQueryActionAgentic\<close> and \<^verbatim>\<open>executeDeepScan\<close> call each
  other. \<^verbatim>\<open>executeDeepScan\<close> is modelled in its agentic mode (\<^verbatim>\<open>agenticStepCount\<close> not
  \<^verbatim>\<open>null\<close>), the only mode in which the loop calls it.
\<close>

function processSystemMessage :: "relay \<Rightarrow> string \<Rightarrow> nat \<Rightarrow> app \<Rightarrow> app"
  and executeQueryActionAgentic :: "relay \<Rightarrow> action \<Rightarrow> nat \<Rightarrow> app \<Rightarrow> app"
  and executeDeepScan :: "relay \<Rightarrow> nat \<Rightarrow> app \<Rightarrow> app"
where
  "processSystemMessage R systemMessage stepCount st =
     (if stepCount = 0 \<and> isProcessing st then st
      else if stepCount \<ge> MAX_AGENTIC_STEPS
      then (addMessage summaryMessage ''assistant'' [] st)\<lparr>isProcessing := False\<rparr>
      else
        (let st1 = setStatus ''busy'' (''Analyzing... (step '' @ showNat (stepCount + 1) @ '')'')
                     (st\<lparr>isProcessing := True\<rparr>);
             response = chat R (length (calls st1)) systemMessage;
             st2 = callRelay (ChatCall stepCount systemMessage) st1
         in case response of
              ChatThrows \<Rightarrow> (setStatus ''error'' ''Error'' st2)\<lparr>isProcessing := False\<rparr>
            | ChatError \<Rightarrow> (setStatus ''error'' ''Analysis failed'' st2)\<lparr>isProcessing := False\<rparr>
            | ChatOk responseText responseActions \<Rightarrow>
                (case parseAIResponse responseText of
                   (txt, actions) \<Rightarrow>
                     (let userActions = filter (\<lambda>a. \<not> isAutoExec a) actions;
                          st3 = addMessage txt ''assistant'' (responseActions @ userActions) st2;
                          queryActions = filter isQueryAction actions;
                          deepScanActions = filter isDeepScanAction actions;
                          st4 = st3\<lparr>isProcessing := False\<rparr>
                      in case queryActions of
                           q # qs \<Rightarrow> executeQueryActionAgentic R q (stepCount + 1) st4
                         | [] \<Rightarrow>
                             (case deepScanActions of
                                d # ds \<Rightarrow> executeDeepScan R (stepCount + 1) st4
                              | [] \<Rightarrow> setStatus ''online'' ''Ready to help'' st4)))))"
| "executeQueryActionAgentic R act stepCount st =
     (let st1 = setStatus ''busy'' (queryLabel act @ ''...'') st;
          res = runSafe R (length (calls st1)) (queryTypeOf act);
          st2 = callRelay (SafeCommandCall stepCount (queryTypeOf act)) st1
      in case res of
           IpcThrows msg \<Rightarrow>
             setStatus ''error'' ''Query failed''
               (addMessage (''Query failed: '' @ msg) ''assistant'' [] st2)
         | IpcResult r \<Rightarrow>
             (if success r \<and> truthyField (outputText r)
              then processSystemMessage R
                     (systemResultOutput (queryTypeOf act) (take 1500 (fieldText (outputText r))))
                     stepCount
                     (st2\<lparr>lastQueryResult :=
                            Some (queryTypeOf act, take 2000 (fieldText (outputText r)))\<rparr>)
              else if truthyField (error r)
              then processSystemMessage R
                     (systemResultError (queryTypeOf act) (fieldText (error r))) stepCount st2
              else processSystemMessage R
                     (systemResultOutput (queryTypeOf act) ''No data returned'') stepCount st2))"
| "executeDeepScan R agenticStepCount st =
     (let st1 = addMessage ''Running deep system scan... checking logs and crash reports''
                  ''assistant'' [] (setStatus ''busy'' ''Analyzing logs...'' st);
          res = runDeepScan R (length (calls st1));
          st2 = callRelay (DeepScanCall agenticStepCount) st1
      in case res of
           DeepThrows msg \<Rightarrow>
             setStatus ''error'' ''Scan error''
               (addMessage (''Scan failed: '' @ msg) ''assistant'' [] st2)
         | DeepResult errorCount crashApps \<Rightarrow>
             processSystemMessage R
               (systemResultOutput ''deep-scan'' (deepScanSummary errorCount crashApps))
               agenticStepCount st2)"
  by pat_completeness auto
termination
  by (relation "measure (\<lambda>x. case x of
          Inl (R, m, n, st) \<Rightarrow> 2 * (MAX_AGENTIC_STEPS - n)
        | Inr (Inl (R, a, n, st)) \<Rightarrow> 2 * (MAX_AGENTIC_STEPS - n) + 1
        | Inr (Inr (R, n, st)) \<Rightarrow> 2 * (MAX_AGENTIC_STEPS - n) + 1)")
     (auto simp: MAX_AGENTIC_STEPS_def)

declare processSystemMessage.simps [simp del]
declare executeQueryActionAgentic.simps [simp del]
declare executeDeepScan.simps [simp del]

text \<open>
  The end of \<^verbatim>\<open>sendMessage\<close>: after the response to a user message was shown, every
  \<^verbatim>\<open>query-system\<close> action of the response that has a \<^verbatim>\<open>queryType\<close> is executed, in
  order, through \<^verbatim>\<open>executeQueryAction\<close>. (\<^verbatim>\<open>sendMessage\<close> has set \<^verbatim>\<open>isProcessing\<close> before
  and resets it only after this loop.)
\<close>

definition executeQueryAction :: "relay \<Rightarrow> action \<Rightarrow> app \<Rightarrow> app" where
  "executeQueryAction R act st = executeQueryActionAgentic R act 0 st"

definition sendMessageAutoExecute :: "relay \<Rightarrow> action list \<Rightarrow> app \<Rightarrow> app" where
  "sendMessageAutoExecute R actions st =
     foldl (\<lambda>s a. if isQueryAction a then executeQueryAction R a s else s) st actions"

text \<open>Readings of the call trace: the step of a call, the calls that dispatch a command
  or a scan, the calls to the backend, and the calls added between two states.\<close>

fun stepOf :: "relay_call \<Rightarrow> nat" where
  "stepOf (ChatCall n m) = n"
| "stepOf (SafeCommandCall n q) = n"
| "stepOf (DeepScanCall n) = n"

fun isDispatch :: "relay_call \<Rightarrow> bool" where
  "isDispatch (ChatCall n m) = False"
| "isDispatch (SafeCommandCall n q) = True"
| "isDispatch (DeepScanCall n) = True"

definition dispatchSteps :: "relay_call list \<Rightarrow> nat list" where
  "dispatchSteps cs = map stepOf (filter isDispatch cs)"

definition chatSteps :: "relay_call list \<Rightarrow> nat list" where
  "chatSteps cs = map stepOf (filter (\<lambda>c. \<not> isDispatch c) cs)"

definition newCalls :: "app \<Rightarrow> app \<Rightarrow> relay_call list" where
  "newCalls st st' = drop (length (calls st)) (calls st')"

text \<open>The states and the message that the three functions build on their way, named
  for the statements below.\<close>

definition chatState :: "app \<Rightarrow> nat \<Rightarrow> string \<Rightarrow> app" where
  "chatState st stepCount systemMessage =
     callRelay (ChatCall stepCount systemMessage)
       (setStatus ''busy'' (''Analyzing... (step '' @ showNat (stepCount + 1) @ '')'')
          (st\<lparr>isProcessing := True\<rparr>))"

definition shownState :: "app \<Rightarrow> string \<Rightarrow> action list \<Rightarrow> app" where
  "shownState st2 responseText responseActions =
     (addMessage (fst (parseAIResponse responseText)) ''assistant''
        (responseActions @ filter (\<lambda>a. \<not> isAutoExec a) (snd (parseAIResponse responseText))) st2)
       \<lparr>isProcessing := False\<rparr>"

definition queryState :: "app \<Rightarrow> action \<Rightarrow> nat \<Rightarrow> app" where
  "queryState st act stepCount =
     callRelay (SafeCommandCall stepCount (queryTypeOf act))
       (setStatus ''busy'' (queryLabel act @ ''...'') st)"

definition feedbackMessage :: "action \<Rightarrow> result \<Rightarrow> string" where
  "feedbackMessage act r =
     (if success r \<and> truthyField (outputText r)
      then systemResultOutput (queryTypeOf act) (take 1500 (fieldText (outputText r)))
      else if truthyField (error r)
      then systemResultError (queryTypeOf act) (fieldText (error r))
      else systemResultOutput (queryTypeOf act) ''No data returned'')"

definition feedbackState :: "app \<Rightarrow> action \<Rightarrow> nat \<Rightarrow> result \<Rightarrow> app" where
  "feedbackState st act stepCount r =
     (if success r \<and> truthyField (outputText r)
      then (queryState st act stepCount)\<lparr>lastQueryResult :=
              Some (queryTypeOf act, take 2000 (fieldText (outputText r)))\<rparr>
      else queryState st act stepCount)"

definition scanState :: "app \<Rightarrow> nat \<Rightarrow> app" where
  "scanState st stepCount =
     callRelay (DeepScanCall stepCount)
       (addMessage ''Running deep system scan... checking logs and crash reports''
          ''assistant'' [] (setStatus ''busy'' ''Analyzing logs...'' st))"

text \<open>A trace of calls as the loop entered at step \<open>n\<close> leaves it: the steps of the
  dispatching calls increase strictly and lie above \<open>n\<close> and at most at the limit; the
  steps of the backend calls increase strictly and lie from \<open>n\<close> on, below the limit.\<close>

definition okTrace :: "nat \<Rightarrow> relay_call list \<Rightarrow> bool" where
  "okTrace n new =
     (sorted_wrt (<) (dispatchSteps new)
      \<and> list_all (\<lambda>s. n < s \<and> s \<le> MAX_AGENTIC_STEPS) (dispatchSteps new)
      \<and> sorted_wrt (<) (chatSteps new)
      \<and> list_all (\<lambda>s. n \<le> s \<and> s < MAX_AGENTIC_STEPS) (chatSteps new))"

text \<open>A new \<^verbatim>\<open>RelayApp\<close> (without a status line yet), and sample answers of the backend
  and of the main process.\<close>

definition newApp :: app where
  "newApp = \<lparr> isProcessing = False, lastQueryResult = None, messages = [],
               status = ([], []), calls = [] \<rparr>"

definition sampleRelay :: "string \<Rightarrow> string \<Rightarrow> relay" where
  "sampleRelay responseText out =
     \<lparr> chat = (\<lambda>i m. ChatOk responseText []),
       runSafe = (\<lambda>i q. IpcResult (emptyResult\<lparr>success := True, outputText := Some out\<rparr>)),
       runDeepScan = (\<lambda>i. DeepResult 0 []) \<rparr>"

definition uptimeReply :: string where
  "uptimeReply = ''Checking. [ACTION: type=\"query-system\" queryType=\"uptime\"]''"

definition twoTagReply :: string where
  "twoTagReply = ''[ACTION: type=\"run-deep-scan\"] [ACTION: type=\"query-system\" queryType=\"disk-usage\"]''"

definition twoQueryReply :: string where
  "twoQueryReply = ''[ACTION: type=\"query-system\" queryType=\"uptime\"] [ACTION: type=\"query-system\" queryType=\"disk-usage\"]''"


definition killReply :: string where
  "killReply = ''Closing it. [ACTION: type=\"kill-process\" processName=\"Chrome\"]''"

definition uptimeAction :: action where
  "uptimeAction = [(''type'', ''query-system''), (''queryType'', ''uptime'')]"


section \<open>Properties of the command executor\<close>

lemma history_logCommand:
  "history (logCommand ty command ok err st) =
     drop (length (history st) + 1 - 100)
       (history st @ [\<lparr> log_type = ty, log_command = command, log_success = ok, log_error = err \<rparr>])"
  by (simp add: logCommand_def Let_def)

lemma spawned_logCommand: "spawned (logCommand ty command ok err st) = spawned st"
  by (simp add: logCommand_def Let_def)

lemma platform_logCommand: "platform (logCommand ty command ok err st) = platform st"
  by (simp add: logCommand_def Let_def)

text \<open>
  C1. A raw command string that matches one of the dangerous patterns is refused by
  \<^verbatim>\<open>runCustomCommand\<close>: the result is the failure object with \<^verbatim>\<open>blocked: true\<close> and
  the security message, nothing is handed to the shell and nothing is logged. The
  statement holds for every executor state, hence for every platform value.
\<close>

theorem runCustomCommand_blocks_dangerous:
  "isDangerous command \<Longrightarrow>
     fst (runCustomCommand sh command st) =
        emptyResult\<lparr>error := Some ''This command is not allowed for security reasons.'',
                      blocked := True\<rparr>
     \<and> blocked (fst (runCustomCommand sh command st))
     \<and> \<not> success (fst (runCustomCommand sh command st))
     \<and> snd (runCustomCommand sh command st) = st"
  by (simp add: runCustomCommand_def emptyResult_def)

theorem runCustomCommand_blocks_dangerous_witness:
  "isDangerous ''sudo rm -rf /'' \<and> isDangerous ''format C:'' \<and> isDangerous ''shutdown -r now''
   \<and> blocked (fst (runCustomCommand (\<lambda>n c. ExecOk [] []) ''sudo rm -rf /'' (newExecutor ''linux'')))
   \<and> blocked (fst (runCustomCommand (\<lambda>n c. ExecOk [] []) ''format C:'' (newExecutor ''win32'')))
   \<and> blocked (fst (runCustomCommand (\<lambda>n c. ExecOk [] []) ''shutdown -r now'' (newExecutor ''darwin'')))
   \<and> spawned (snd (runCustomCommand (\<lambda>n c. ExecOk [] []) ''sudo rm -rf /'' (newExecutor ''linux''))) = []"
proof -
  have h1: "isDangerous ''sudo rm -rf /''" by code_simp
  have h2: "isDangerous ''format C:''" by code_simp
  have h3: "isDangerous ''shutdown -r now''" by code_simp
  show ?thesis
    using h1 h2 h3
      runCustomCommand_blocks_dangerous [OF h1, of "\<lambda>n c. ExecOk [] []" "newExecutor ''linux''"]
      runCustomCommand_blocks_dangerous [OF h2, of "\<lambda>n c. ExecOk [] []" "newExecutor ''win32''"]
      runCustomCommand_blocks_dangerous [OF h3, of "\<lambda>n c. ExecOk [] []" "newExecutor ''darwin''"]
    by (simp add: newExecutor_def)
qed

text \<open>
  C7. \<^verbatim>\<open>runSafeCommand\<close> on a catalog key whose command map has no entry for the
  executor's platform returns the failure "Command not supported on <platform>" and
  leaves the executor as it was: no command line reaches the shell, nothing is logged.
\<close>

theorem runSafeCommand_unsupported_platform:
  "map_of safeCommands commandKey = Some commandMap \<Longrightarrow>
   map_of commandMap (platform st) = None \<Longrightarrow>
     runSafeCommand sh commandKey st =
        (emptyResult\<lparr>error := Some (''Command not supported on '' @ platform st)\<rparr>, st)
     \<and> \<not> success (fst (runSafeCommand sh commandKey st))
     \<and> spawned (snd (runSafeCommand sh commandKey st)) = spawned st"
  by (simp add: runSafeCommand_def emptyResult_def)

theorem runSafeCommand_unsupported_platform_witness:
  "map_of safeCommands ''uptime'' =
      Some [(''darwin'', ''uptime''),
            (''win32'', ''powershell \"(Get-Date) - (Get-CimInstance Win32_OperatingSystem).LastBootUpTime\"''),
            (''linux'', ''uptime'')]
   \<and> runSafeCommand (\<lambda>n c. ExecOk ''up 3 days'' []) ''uptime'' (newExecutor ''freebsd'') =
        (emptyResult\<lparr>error := Some ''Command not supported on freebsd''\<rparr>, newExecutor ''freebsd'')"
proof -
  have h1: "map_of safeCommands ''uptime'' =
      Some [(''darwin'', ''uptime''),
            (''win32'', ''powershell \"(Get-Date) - (Get-CimInstance Win32_OperatingSystem).LastBootUpTime\"''),
            (''linux'', ''uptime'')]"
    by (simp add: safeCommands_def)
  have h2: "map_of [(''darwin'', ''uptime''),
            (''win32'', ''powershell \"(Get-Date) - (Get-CimInstance Win32_OperatingSystem).LastBootUpTime\"''),
            (''linux'', ''uptime'')] (platform (newExecutor ''freebsd'')) = None"
    by (simp add: newExecutor_def)
  show ?thesis
    using h1 runSafeCommand_unsupported_platform [OF h1 h2, of "\<lambda>n c. ExecOk ''up 3 days'' []"]
    by (simp add: newExecutor_def)
qed

text \<open>
  C6, as the claim states it, fails: the class kept by \<^verbatim>\<open>killProcessByName\<close> holds
  \<^verbatim>\<open>\s\<close>, so the blanks of the name survive and the argument is not "Chromerm-rf".
\<close>

theorem sanitize_chrome_counterexample:
  "sanitizeName ''Chrome;rm -rf ~'' \<noteq> ''Chromerm-rf''"
  by code_simp

text \<open>
  C6, amended. For the process name "Chrome;rm -rf ~" the sanitisation removes the
  semicolon and the tilde and keeps the blanks: the argument substituted into the
  command template is "Chromerm -rf " (with its trailing blank). For every name the
  sanitised name holds only characters of \<^verbatim>\<open>[a-zA-Z0-9\s\-_.]\<close>, and
  \<^verbatim>\<open>killProcessByName\<close> never rejects: it hands exactly one command line, built from the
  sanitised name, to the shell.
\<close>

theorem sanitize_strips_not_rejects:
  "sanitizeName ''Chrome;rm -rf ~'' = ''Chromerm -rf ''
   \<and> killByNameCommand ''darwin'' (sanitizeName ''Chrome;rm -rf ~'')
        = ''pkill -x \"Chromerm -rf \" || pkill \"Chromerm -rf \"''
   \<and> list_all isSafeNameChar (sanitizeName name)
   \<and> spawned (snd (killProcessByName sh name st))
        = spawned st @ [killByNameCommand (platform st) (sanitizeName name)]"
proof -
  have a: "sanitizeName ''Chrome;rm -rf ~'' = ''Chromerm -rf ''" by code_simp
  have b: "killByNameCommand ''darwin'' ''Chromerm -rf ''
        = ''pkill -x \"Chromerm -rf \" || pkill \"Chromerm -rf \"''"
    by (simp add: killByNameCommand_def)
  have c: "list_all isSafeNameChar (sanitizeName name)"
    by (simp add: sanitizeName_def list_all_iff)
  have d: "spawned (snd (killProcessByName sh name st))
        = spawned st @ [killByNameCommand (platform st) (sanitizeName name)]"
    by (simp add: killProcessByName_def execAsync_def Let_def spawned_logCommand
             split: exec_outcome.splits)
  show ?thesis using a b c d by simp
qed


lemma history_logAll_snoc:
  "history (logAll (rs @ [r]) st) = drop (length (history (logAll rs st)) + 1 - 100)
                                        (history (logAll rs st) @ [r])"
  by (simp add: logAll_def history_logCommand)

lemma history_logAll_new:
  "history (logAll rs (newExecutor p)) = drop (length rs - 100) rs"
proof (induction rs rule: rev_induct)
  case Nil
  show ?case by (simp add: logAll_def newExecutor_def)
next
  case (snoc r rs)
  show ?case
  proof (cases "length rs \<le> 100")
    case True
    then show ?thesis using snoc by (simp add: history_logAll_snoc)
  next
    case False
    then have "length (drop (length rs - 100) rs) = 100" by simp
    moreover have "Suc (length rs - 100) = length rs - 99" using False by arith
    ultimately show ?thesis using snoc False
      by (simp add: history_logAll_snoc)
  qed
qed

section \<open>Properties of the solution engine\<close>

lemma getProp_JStr_truthy: "getProp solution k = JStr t \<Longrightarrow> truthy solution"
  by (cases solution) simp_all

text \<open>
  C2, as the claim states it, fails: the answer of \<^verbatim>\<open>execute\<close> for a dangerous type is
  not the blocked result. Where the code blocks (\<^verbatim>\<open>runCustomCommand\<close>) it sets
  \<^verbatim>\<open>blocked: true\<close>; here it sets \<^verbatim>\<open>requiresApproval: true\<close> and says that the action
  requires additional approval.
\<close>

theorem dangerous_type_not_blocked_counterexample:
  "map_option blocked (resultOf (execute (\<lambda>n c. ExecOk [] [])
       (JObj [(''type'', JStr ''format-drive'')]) (newEngine ''win32''))) = Some False
   \<and> map_option requiresApproval (resultOf (execute (\<lambda>n c. ExecOk [] [])
       (JObj [(''type'', JStr ''format-drive'')]) (newEngine ''win32''))) = Some True
   \<and> map_option error (resultOf (execute (\<lambda>n c. ExecOk [] [])
       (JObj [(''type'', JStr ''format-drive'')]) (newEngine ''win32'')))
        = Some (Some ''This action requires additional approval due to safety concerns'')"
  by (simp add: execute_def isSafe_def dangerousTypes_def resultOf_def emptyResult_def)

text \<open>
  C2, amended. For a solution whose declared type is one of the four dangerous types,
  whatever its other fields are, \<^verbatim>\<open>isSafe\<close> is false and \<^verbatim>\<open>execute\<close> returns the
  approval-required refusal: \<^verbatim>\<open>success: false\<close>, \<^verbatim>\<open>requiresApproval: true\<close>, the error
  "This action requires additional approval due to safety concerns", and no
  \<^verbatim>\<open>blocked\<close> flag. The engine is unchanged: nothing is logged, no command line is built
  or handed to the shell. \<^verbatim>\<open>execute\<close> has no parameter through which an approval could
  be given: submitted again, the solution gets the same answer.
\<close>

theorem execute_asks_approval_for_dangerous_types:
  "getProp solution ''type'' = JStr t \<Longrightarrow> t \<in> set dangerousTypes \<Longrightarrow>
     \<not> isSafe solution
     \<and> execute sh solution st =
         (Inr (emptyResult\<lparr>
                 error := Some ''This action requires additional approval due to safety concerns'',
                 requiresApproval := True\<rparr>), st)
     \<and> map_option success (resultOf (execute sh solution st)) = Some False
     \<and> map_option requiresApproval (resultOf (execute sh solution st)) = Some True
     \<and> map_option blocked (resultOf (execute sh solution st)) = Some False
     \<and> se_spawned (snd (execute sh solution st)) = se_spawned st
     \<and> auditLog (snd (execute sh solution st)) = auditLog st
     \<and> execute sh2 solution (snd (execute sh solution st)) = execute sh solution st"
proof -
  assume ty: "getProp solution ''type'' = JStr t" and t: "t \<in> set dangerousTypes"
  have tr: "truthy solution" using ty by (rule getProp_JStr_truthy)
  have ne: "t \<noteq> []" using t by (auto simp: dangerousTypes_def)
  have unsafe: "\<not> isSafe solution" using ty t by (simp add: isSafe_def)
  have ex: "execute sh' solution st' =
         (Inr (emptyResult\<lparr>
                 error := Some ''This action requires additional approval due to safety concerns'',
                 requiresApproval := True\<rparr>), st')" for sh' st'
    using tr ne ty unsafe by (simp add: execute_def)
  show ?thesis using unsafe by (simp add: ex resultOf_def emptyResult_def)
qed

theorem execute_asks_approval_for_dangerous_types_witness:
  "set dangerousTypes = {''delete-system-file'', ''modify-registry'', ''format-drive'', ''disable-security''}
   \<and> \<not> isDangerous ''modify-registry''
   \<and> map_option requiresApproval (resultOf (execute (\<lambda>n c. ExecOk [] [])
        (JObj [(''type'', JStr ''delete-system-file''), (''path'', JStr ''/etc/hosts'')]) (newEngine ''linux''))) = Some True
   \<and> map_option requiresApproval (resultOf (execute (\<lambda>n c. ExecOk [] [])
        (JObj [(''type'', JStr ''modify-registry''), (''key'', JStr ''HKLM'')]) (newEngine ''win32''))) = Some True
   \<and> map_option requiresApproval (resultOf (execute (\<lambda>n c. ExecOk [] [])
        (JObj [(''type'', JStr ''format-drive'')]) (newEngine ''win32''))) = Some True
   \<and> map_option requiresApproval (resultOf (execute (\<lambda>n c. ExecOk [] [])
        (JObj [(''type'', JStr ''disable-security'')]) (newEngine ''darwin''))) = Some True
   \<and> snd (execute (\<lambda>n c. ExecOk [] [])
        (JObj [(''type'', JStr ''modify-registry''), (''key'', JStr ''HKLM'')]) (newEngine ''win32''))
        = newEngine ''win32''"
proof -
  have d: "set dangerousTypes = {''delete-system-file'', ''modify-registry'', ''format-drive'', ''disable-security''}"
    by (simp add: dangerousTypes_def)
  have m1: "''delete-system-file'' \<in> set dangerousTypes" by (simp add: dangerousTypes_def)
  have m2: "''modify-registry'' \<in> set dangerousTypes" by (simp add: dangerousTypes_def)
  have m3: "''format-drive'' \<in> set dangerousTypes" by (simp add: dangerousTypes_def)
  have m4: "''disable-security'' \<in> set dangerousTypes" by (simp add: dangerousTypes_def)
  have g1: "getProp (JObj [(''type'', JStr ''delete-system-file''), (''path'', JStr ''/etc/hosts'')]) ''type''
              = JStr ''delete-system-file''" by simp
  have g2: "getProp (JObj [(''type'', JStr ''modify-registry''), (''key'', JStr ''HKLM'')]) ''type''
              = JStr ''modify-registry''" by simp
  have g3: "getProp (JObj [(''type'', JStr ''format-drive'')]) ''type'' = JStr ''format-drive''" by simp
  have g4: "getProp (JObj [(''type'', JStr ''disable-security'')]) ''type'' = JStr ''disable-security''" by simp
  have nd: "\<not> isDangerous ''modify-registry''" by code_simp
  note w1 = execute_asks_approval_for_dangerous_types [OF g1 m1, of "\<lambda>n c. ExecOk [] []" "newEngine ''linux''"]
  note w2 = execute_asks_approval_for_dangerous_types [OF g2 m2, of "\<lambda>n c. ExecOk [] []" "newEngine ''win32''"]
  note w3 = execute_asks_approval_for_dangerous_types [OF g3 m3, of "\<lambda>n c. ExecOk [] []" "newEngine ''win32''"]
  note w4 = execute_asks_approval_for_dangerous_types [OF g4 m4, of "\<lambda>n c. ExecOk [] []" "newEngine ''darwin''"]
  have a1: "map_option requiresApproval (resultOf (execute (\<lambda>n c. ExecOk [] [])
        (JObj [(''type'', JStr ''delete-system-file''), (''path'', JStr ''/etc/hosts'')]) (newEngine ''linux''))) = Some True"
    using w1 by blast
  have a2: "map_option requiresApproval (resultOf (execute (\<lambda>n c. ExecOk [] [])
        (JObj [(''type'', JStr ''modify-registry''), (''key'', JStr ''HKLM'')]) (newEngine ''win32''))) = Some True"
    using w2 by blast
  have a3: "map_option requiresApproval (resultOf (execute (\<lambda>n c. ExecOk [] [])
        (JObj [(''type'', JStr ''format-drive'')]) (newEngine ''win32''))) = Some True"
    using w3 by blast
  have a4: "map_option requiresApproval (resultOf (execute (\<lambda>n c. ExecOk [] [])
        (JObj [(''type'', JStr ''disable-security'')]) (newEngine ''darwin''))) = Some True"
    using w4 by blast
  have a5: "snd (execute (\<lambda>n c. ExecOk [] [])
        (JObj [(''type'', JStr ''modify-registry''), (''key'', JStr ''HKLM'')]) (newEngine ''win32''))
        = newEngine ''win32''"
    using w2 by simp
  show ?thesis using d nd a1 a2 a3 a4 a5 by blast
qed

text \<open>
  C10. For a solution that is \<^verbatim>\<open>null\<close> or \<^verbatim>\<open>undefined\<close>, or whose \<^verbatim>\<open>type\<close> field is
  missing, \<^verbatim>\<open>execute\<close> throws the error "Invalid solution provided" and returns no
  result object; the engine is unchanged, so nothing was classified, logged or
  dispatched.
\<close>

theorem execute_rejects_invalid_solution:
  "solution = JNull \<or> solution = JUndefined \<or> getProp solution ''type'' = JUndefined \<Longrightarrow>
     execute sh solution st = (Inl ''Invalid solution provided'', st)"
  by (auto simp: execute_def)

theorem execute_rejects_invalid_solution_witness:
  "execute (\<lambda>n c. ExecOk [] []) JNull (newEngine ''linux'') = (Inl ''Invalid solution provided'', newEngine ''linux'')
   \<and> execute (\<lambda>n c. ExecOk [] []) JUndefined (newEngine ''linux'') = (Inl ''Invalid solution provided'', newEngine ''linux'')
   \<and> getProp (JObj [(''pid'', JNum 4242)]) ''type'' = JUndefined
   \<and> execute (\<lambda>n c. ExecOk [] []) (JObj [(''pid'', JNum 4242)]) (newEngine ''linux'')
        = (Inl ''Invalid solution provided'', newEngine ''linux'')"
proof -
  have h: "getProp (JObj [(''pid'', JNum 4242)]) ''type'' = JUndefined" by simp
  show ?thesis
    using h
      execute_rejects_invalid_solution [of JNull "\<lambda>n c. ExecOk [] []" "newEngine ''linux''"]
      execute_rejects_invalid_solution [of JUndefined "\<lambda>n c. ExecOk [] []" "newEngine ''linux''"]
      execute_rejects_invalid_solution [of "JObj [(''pid'', JNum 4242)]" "\<lambda>n c. ExecOk [] []" "newEngine ''linux''"]
    by simp
qed

section \<open>The two logs\<close>

lemma length_auditLog_funpow_log:
  "length (auditLog ((log act details ^^ n) e)) = length (auditLog e) + n"
  by (induction n) (simp_all add: log_def)

lemma history_logAll_upt:
  "history (logAll (map f [0..<m]) (newExecutor p)) = map f [m - 100..<m]"
  by (simp add: history_logAll_new drop_map drop_upt)

text \<open>
  C8, as the claim states it, fails for the audit log of the solution engine:
  \<^verbatim>\<open>SolutionEngine.log\<close> only appends, and after 101 calls the log holds 101 entries.
\<close>

theorem auditLog_unbounded_counterexample:
  "\<not> length (auditLog ((log ''execute'' (JObj [(''type'', JStr ''flush-dns'')]) ^^ 101)
                          (newEngine ''linux''))) \<le> 100"
  by (simp only: length_auditLog_funpow_log)

text \<open>
  C8, amended. The command history of the executor is a bounded buffer of capacity 100:
  after any run of \<^verbatim>\<open>logCommand\<close> calls on a new executor it holds the last 100 of the
  records appended (all of them when there are fewer), in the order of appending; after
  150 appends it holds the records 50 to 149; and after a \<^verbatim>\<open>logCommand\<close> call on any
  executor the history has at most 100 entries. The audit log of the solution engine
  is not bounded: \<^verbatim>\<open>SolutionEngine.log\<close> appends its entry and evicts nothing.
\<close>

theorem history_ring_buffer:
  "history (logAll rs (newExecutor p)) = drop (length rs - 100) rs
   \<and> history (logAll (map sampleRecord [0..<150]) (newExecutor p)) = map sampleRecord [50..<150]
   \<and> length (history (logCommand ty command ok err st)) \<le> 100
   \<and> auditLog (log act details e)
        = auditLog e @ [\<lparr> le_action = act, le_details = details, le_platform = se_platform e \<rparr>]"
proof -
  have a: "history (logAll rs (newExecutor p)) = drop (length rs - 100) rs"
    by (rule history_logAll_new)
  have "(150::nat) - 100 = 50" by simp
  then have b: "history (logAll (map sampleRecord [0..<150]) (newExecutor p))
          = map sampleRecord [50..<150]"
    using history_logAll_upt [of sampleRecord 150 p] by (simp only:)
  have c: "length (history (logCommand ty command ok err st)) \<le> 100"
    by (simp add: history_logCommand)
  have d: "auditLog (log act details e)
        = auditLog e @ [\<lparr> le_action = act, le_details = details, le_platform = se_platform e \<rparr>]"
    by (simp add: log_def)
  show ?thesis using a b c d by (simp only: simp_thms)
qed

section \<open>Properties of the action parser\<close>

lemma matchParam_value: "matchParam s = Some (k, v, rest) \<Longrightarrow> v \<noteq> []"
  by (auto simp: matchParam_def Let_def split: if_splits)

lemma execParam_value: "execParam s = Some (k, v, rest) \<Longrightarrow> v \<noteq> []"
proof (induction s)
  case Nil
  then show ?case by simp
next
  case (Cons x xs)
  then show ?case
    by (cases "matchParam (x # xs)") (auto dest: matchParam_value)
qed

lemma hasType_setProp:
  "v \<noteq> [] \<Longrightarrow> hasType (setProp k v a) = (k = ''type'' \<or> hasType a)"
  by (auto simp: hasType_def setProp_def update_conv)

lemma hasType_paramLoop: "hasType (paramLoop g a) = (carriesType g \<or> hasType a)"
proof (induction g a rule: paramLoop.induct)
  case (1 s a)
  show ?case
  proof (cases "execParam s")
    case None
    then show ?thesis
      by (simp add: paramLoop.simps [of s] paramMatches.simps [of s] carriesType_def)
  next
    case (Some r)
    obtain k v rest where r: "r = (k, v, rest)" by (cases r)
    have v: "v \<noteq> []" using Some r by (auto dest: execParam_value)
    have "hasType (paramLoop s a) = hasType (paramLoop rest (setProp k v a))"
      using Some r by (simp add: paramLoop.simps [of s])
    also have "\<dots> = (carriesType rest \<or> hasType (setProp k v a))"
      using "1.IH" Some r by simp
    also have "\<dots> = (carriesType rest \<or> k = ''type'' \<or> hasType a)"
      using v by (simp add: hasType_setProp)
    also have "\<dots> = (carriesType s \<or> hasType a)"
      using Some r by (auto simp: carriesType_def paramMatches.simps [of s])
    finally show ?thesis .
  qed
qed

lemma hasType_paramLoop_Nil: "hasType (paramLoop g []) = carriesType g"
  by (simp add: hasType_paramLoop) (simp add: hasType_def)

lemma parseLoop_eq:
  "parseLoop rest t actions =
     (foldl replaceFirst t (map fst (actionBlocks rest)),
      actions @ map (\<lambda>b. paramLoop (snd b) []) (filter (\<lambda>b. carriesType (snd b)) (actionBlocks rest)))"
proof (induction rest t actions rule: parseLoop.induct)
  case (1 rest t actions)
  show ?case
  proof (cases "execActionBlock rest")
    case None
    then show ?thesis
      by (simp add: parseLoop.simps [of rest t actions] actionBlocks.simps [of rest])
  next
    case (Some r)
    obtain m g rest' where r: "r = (m, g, rest')" by (cases r)
    let ?a = "paramLoop g []"
    let ?acts = "if hasType ?a then actions @ [?a] else actions"
    have step: "parseLoop rest t actions = parseLoop rest' (replaceFirst t m) ?acts"
      using Some r by (simp add: parseLoop.simps [of rest t actions] Let_def)
    have ab: "actionBlocks rest = (m, g) # actionBlocks rest'"
      using Some r by (simp add: actionBlocks.simps [of rest])
    have ih: "parseLoop rest' (replaceFirst t m) ?acts =
       (foldl replaceFirst (replaceFirst t m) (map fst (actionBlocks rest')),
        ?acts @ map (\<lambda>b. paramLoop (snd b) [])
                  (filter (\<lambda>b. carriesType (snd b)) (actionBlocks rest')))"
      by (rule "1.IH" [of r m "(g, rest')" g "rest'" "paramLoop g []", OF Some])
         (simp_all add: r)
    show ?thesis
      unfolding step ih ab by (simp add: hasType_paramLoop_Nil)
  qed
qed

lemma replaceFirst_startsWith:
  "t \<noteq> [] \<Longrightarrow> startsWith t m \<Longrightarrow> replaceFirst t m = drop (length m) t"
  by (cases t) simp_all

lemma replaceFirst_occurrence:
  "\<exists>a'. replaceFirst (a @ m @ b) m = a' @ b \<and> length a' = length a"
proof (induction a)
  case Nil
  have "replaceFirst (m @ b) m = drop (length m) (m @ b)"
    by (cases "m @ b = []") (simp_all add: replaceFirst_startsWith startsWith_def)
  then show ?case by simp
next
  case (Cons x a)
  then obtain a' where a': "replaceFirst (a @ m @ b) m = a' @ b" "length a' = length a"
    by blast
  show ?case
  proof (cases "startsWith (x # a @ m @ b) m")
    case True
    have le: "length m \<le> length (x # a @ m)" by simp
    have "replaceFirst ((x # a) @ m @ b) m = drop (length m) ((x # a @ m) @ b)"
      using True by simp
    also have "\<dots> = drop (length m) (x # a @ m) @ drop (length m - length (x # a @ m)) b"
      by (rule drop_append)
    also have "\<dots> = drop (length m) (x # a @ m) @ b" using le by simp
    finally have "replaceFirst ((x # a) @ m @ b) m = drop (length m) (x # a @ m) @ b" .
    moreover have "length (drop (length m) (x # a @ m)) = length (x # a)" by simp
    ultimately show ?thesis by blast
  next
    case False
    then have "replaceFirst ((x # a) @ m @ b) m = (x # a') @ b" using a' by simp
    moreover have "length (x # a') = length (x # a)" using a' by simp
    ultimately show ?thesis by blast
  qed
qed

lemma removals_effective:
  "t = pre @ rest \<Longrightarrow>
     length (foldl replaceFirst t (map fst (actionBlocks rest)))
       + sum_list (map (\<lambda>b. length (fst b)) (actionBlocks rest)) = length t"
proof (induction rest arbitrary: t pre rule: actionBlocks.induct)
  case (1 s)
  show ?case
  proof (cases "execActionBlock s")
    case None
    then show ?thesis by (simp add: actionBlocks.simps [of s])
  next
    case (Some r)
    obtain m g rest' where r: "r = (m, g, rest')" by (cases r)
    from Some r obtain skipped where s: "s = skipped @ m @ rest'"
      by (auto dest: execActionBlock_decomp)
    have "t = (pre @ skipped) @ m @ rest'" using "1.prems" s by simp
    then obtain a' where a': "replaceFirst t m = a' @ rest'" "length a' = length (pre @ skipped)"
      using replaceFirst_occurrence [of "pre @ skipped" m "rest'"] by auto
    have ih: "length (foldl replaceFirst (replaceFirst t m) (map fst (actionBlocks rest')))
       + sum_list (map (\<lambda>b. length (fst b)) (actionBlocks rest')) = length (replaceFirst t m)"
      by (rule "1.IH" [of r m "(g, rest')" g "rest'" "replaceFirst t m" "a'", OF Some])
         (simp_all add: r a')
    have ab: "actionBlocks s = (m, g) # actionBlocks rest'"
      using Some r by (simp add: actionBlocks.simps [of s])
    have "length (replaceFirst t m) + length m = length t"
      using a' "1.prems" s by simp
    then show ?thesis
      using ih unfolding ab by simp
  qed
qed

text \<open>
  C3, as the claim states it, fails: \<^verbatim>\<open>parseAIResponse\<close> returns \<^verbatim>\<open>text.trim()\<close>. The
  blank before a tag that ends the response goes with the tag, and a response without
  any matched tag (here an unterminated one) comes back trimmed, not unchanged.
\<close>

theorem parseAIResponse_whitespace_counterexample:
  "fst (parseAIResponse ''Let me check. [ACTION: type=\"query-system\" queryType=\"top-processes\"]'')
      \<noteq> ''Let me check. ''
   \<and> actionBlocks ''[ACTION: type=\"x\" '' = []
   \<and> fst (parseAIResponse ''[ACTION: type=\"x\" '') \<noteq> ''[ACTION: type=\"x\" ''"
  by code_simp

text \<open>
  C3, amended. \<^verbatim>\<open>parseAIResponse\<close> is total (it is a function of the logic, its two loops
  proved terminating), so it returns for every input string and never throws. The text
  it returns is the input from which, for each matched tag in order, the first
  occurrence of the tag's text was removed, trimmed of leading and trailing white space
  at the end. Each removal finds its tag: the lengths of the removed tags and of the
  untrimmed text add up to the length of the input. The number of actions is the
  number of matched tags carrying a \<^verbatim>\<open>type\<close> parameter. For an input without a matched
  tag the result is the trimmed input and no action.
\<close>

theorem parseAIResponse_trims:
  "fst (parseAIResponse s) = trim (foldl replaceFirst s (map fst (actionBlocks s)))
   \<and> length (foldl replaceFirst s (map fst (actionBlocks s)))
        + sum_list (map (\<lambda>b. length (fst b)) (actionBlocks s)) = length s
   \<and> length (snd (parseAIResponse s)) = length (filter (\<lambda>b. carriesType (snd b)) (actionBlocks s))
   \<and> (actionBlocks s = [] \<longrightarrow> parseAIResponse s = (trim s, []))"
proof -
  have a: "fst (parseAIResponse s) = trim (foldl replaceFirst s (map fst (actionBlocks s)))"
    by (simp add: parseAIResponse_def parseLoop_eq)
  have b: "length (foldl replaceFirst s (map fst (actionBlocks s)))
        + sum_list (map (\<lambda>b. length (fst b)) (actionBlocks s)) = length s"
    using removals_effective [of s "[]" s] by simp
  have c: "length (snd (parseAIResponse s)) = length (filter (\<lambda>b. carriesType (snd b)) (actionBlocks s))"
    by (simp add: parseAIResponse_def parseLoop_eq)
  have d: "actionBlocks s = [] \<longrightarrow> parseAIResponse s = (trim s, [])"
    by (simp add: parseAIResponse_def parseLoop_eq)
  show ?thesis using a b c d by (simp only: simp_thms)
qed

theorem parseAIResponse_trims_witness:
  "actionBlocks '' [ACTION: oops '' = []
   \<and> parseAIResponse '' [ACTION: oops '' = (''[ACTION: oops'', [])"
proof -
  have h: "actionBlocks '' [ACTION: oops '' = []" by code_simp
  have t: "trim '' [ACTION: oops '' = ''[ACTION: oops''" by code_simp
  show ?thesis using h t parseAIResponse_trims [of "'' [ACTION: oops ''"] by simp
qed

section \<open>Properties of the agentic loop\<close>

lemma calls_setStatus [simp]: "calls (setStatus k t st) = calls st"
  by (simp add: setStatus_def)

lemma calls_addMessage [simp]: "calls (addMessage c s a st) = calls st"
  by (simp add: addMessage_def)

lemma calls_callRelay [simp]: "calls (callRelay c st) = calls st @ [c]"
  by (simp add: callRelay_def)

lemma isProcessing_setStatus [simp]: "isProcessing (setStatus k t st) = isProcessing st"
  by (simp add: setStatus_def)

lemma isProcessing_addMessage [simp]: "isProcessing (addMessage c s a st) = isProcessing st"
  by (simp add: addMessage_def)

lemma isProcessing_callRelay [simp]: "isProcessing (callRelay c st) = isProcessing st"
  by (simp add: callRelay_def)

lemma messages_setStatus [simp]: "messages (setStatus k t st) = messages st"
  by (simp add: setStatus_def)

lemma messages_addMessage [simp]:
  "messages (addMessage c s a st) = messages st @ [Message c s a]"
  by (simp add: addMessage_def)

lemma calls_chatState [simp]: "calls (chatState st n m) = calls st @ [ChatCall n m]"
  by (simp add: chatState_def)

lemma calls_shownState [simp]: "calls (shownState st t ra) = calls st"
  by (simp add: shownState_def)

lemma calls_queryState [simp]:
  "calls (queryState st a n) = calls st @ [SafeCommandCall n (queryTypeOf a)]"
  by (simp add: queryState_def)

lemma calls_feedbackState [simp]:
  "calls (feedbackState st a n r) = calls st @ [SafeCommandCall n (queryTypeOf a)]"
  by (simp add: feedbackState_def)

lemma calls_scanState [simp]: "calls (scanState st n) = calls st @ [DeepScanCall n]"
  by (simp add: scanState_def)

lemma isProcessing_feedbackState [simp]:
  "isProcessing (feedbackState st a n r) = isProcessing st"
  by (simp add: feedbackState_def queryState_def)

lemma isProcessing_scanState [simp]: "isProcessing (scanState st n) = isProcessing st"
  by (simp add: scanState_def)

lemma isProcessing_shownState [simp]: "\<not> isProcessing (shownState st t ra)"
  by (simp add: shownState_def)

lemma processSystemMessage_idle:
  "stepCount = 0 \<and> isProcessing st \<Longrightarrow> processSystemMessage R m stepCount st = st"
  by (simp add: processSystemMessage.simps)

lemma processSystemMessage_limit:
  "stepCount = 0 \<longrightarrow> \<not> isProcessing st \<Longrightarrow> MAX_AGENTIC_STEPS \<le> stepCount \<Longrightarrow>
     processSystemMessage R m stepCount st
       = (addMessage summaryMessage ''assistant'' [] st)\<lparr>isProcessing := False\<rparr>"
  by (cases "stepCount = 0") (simp_all add: processSystemMessage.simps)

lemma processSystemMessage_step:
  "stepCount = 0 \<longrightarrow> \<not> isProcessing st \<Longrightarrow> stepCount < MAX_AGENTIC_STEPS \<Longrightarrow>
     processSystemMessage R m stepCount st =
       (case chat R (length (calls st)) m of
          ChatThrows \<Rightarrow> (setStatus ''error'' ''Error'' (chatState st stepCount m))\<lparr>isProcessing := False\<rparr>
        | ChatError \<Rightarrow> (setStatus ''error'' ''Analysis failed'' (chatState st stepCount m))\<lparr>isProcessing := False\<rparr>
        | ChatOk t ra \<Rightarrow>
            (case filter isQueryAction (snd (parseAIResponse t)) of
               q # qs \<Rightarrow> executeQueryActionAgentic R q (stepCount + 1)
                           (shownState (chatState st stepCount m) t ra)
             | [] \<Rightarrow>
                 (case filter isDeepScanAction (snd (parseAIResponse t)) of
                    d # ds \<Rightarrow> executeDeepScan R (stepCount + 1)
                                (shownState (chatState st stepCount m) t ra)
                  | [] \<Rightarrow> setStatus ''online'' ''Ready to help''
                            (shownState (chatState st stepCount m) t ra))))"
  by (cases "stepCount = 0")
     (simp_all add: processSystemMessage.simps Let_def chatState_def
        shownState_def split: chat_response.splits prod.splits list.splits)

lemma executeQueryActionAgentic_step:
  "executeQueryActionAgentic R a n st =
     (case runSafe R (length (calls st)) (queryTypeOf a) of
        IpcThrows msg \<Rightarrow>
          setStatus ''error'' ''Query failed''
            (addMessage (''Query failed: '' @ msg) ''assistant'' [] (queryState st a n))
      | IpcResult r \<Rightarrow>
          processSystemMessage R (feedbackMessage a r) n (feedbackState st a n r))"
  by (simp add: executeQueryActionAgentic.simps [of R a n st] Let_def queryState_def
        feedbackMessage_def feedbackState_def split: ipc_result.splits)

lemma executeDeepScan_step:
  "executeDeepScan R n st =
     (case runDeepScan R (length (calls st)) of
        DeepThrows msg \<Rightarrow>
          setStatus ''error'' ''Scan error''
            (addMessage (''Scan failed: '' @ msg) ''assistant'' [] (scanState st n))
      | DeepResult errorCount crashApps \<Rightarrow>
          processSystemMessage R
            (systemResultOutput ''deep-scan'' (deepScanSummary errorCount crashApps))
            n (scanState st n))"
  by (simp add: executeDeepScan.simps [of R n st] Let_def scanState_def
        split: deep_result.splits)

lemma okTrace_Nil: "okTrace n []"
  by (simp add: okTrace_def dispatchSteps_def chatSteps_def)

lemma okTrace_chat: "n < MAX_AGENTIC_STEPS \<Longrightarrow> okTrace n [ChatCall n m]"
  by (simp add: okTrace_def dispatchSteps_def chatSteps_def)

lemma okTrace_chat_dispatch:
  "n < MAX_AGENTIC_STEPS \<Longrightarrow> isDispatch d \<Longrightarrow> stepOf d = Suc n \<Longrightarrow>
     okTrace (Suc n) new \<Longrightarrow> okTrace n (ChatCall n m # d # new)"
  by (auto simp: okTrace_def dispatchSteps_def chatSteps_def list_all_iff)

lemma query_trace_from:
  assumes "\<And>m st. \<exists>new. calls (processSystemMessage R m n st) = calls st @ new \<and> okTrace n new"
  shows "\<exists>new. calls (executeQueryActionAgentic R a n st)
                  = calls st @ SafeCommandCall n (queryTypeOf a) # new \<and> okTrace n new"
proof (cases "runSafe R (length (calls st)) (queryTypeOf a)")
  case (IpcThrows msg)
  then have "calls (executeQueryActionAgentic R a n st)
               = calls st @ SafeCommandCall n (queryTypeOf a) # []"
    by (simp add: executeQueryActionAgentic_step)
  then show ?thesis using okTrace_Nil by blast
next
  case (IpcResult r)
  obtain new where "calls (processSystemMessage R (feedbackMessage a r) n (feedbackState st a n r))
                      = calls (feedbackState st a n r) @ new" and ok: "okTrace n new"
    using assms by blast
  then have "calls (executeQueryActionAgentic R a n st)
               = calls st @ SafeCommandCall n (queryTypeOf a) # new"
    using IpcResult by (simp add: executeQueryActionAgentic_step)
  then show ?thesis using ok by blast
qed

lemma scan_trace_from:
  assumes "\<And>m st. \<exists>new. calls (processSystemMessage R m n st) = calls st @ new \<and> okTrace n new"
  shows "\<exists>new. calls (executeDeepScan R n st) = calls st @ DeepScanCall n # new \<and> okTrace n new"
proof (cases "runDeepScan R (length (calls st))")
  case (DeepThrows msg)
  then have "calls (executeDeepScan R n st) = calls st @ DeepScanCall n # []"
    by (simp add: executeDeepScan_step)
  then show ?thesis using okTrace_Nil by blast
next
  case (DeepResult e c)
  obtain new where "calls (processSystemMessage R
            (systemResultOutput ''deep-scan'' (deepScanSummary e c)) n (scanState st n))
                      = calls (scanState st n) @ new" and ok: "okTrace n new"
    using assms by blast
  then have "calls (executeDeepScan R n st) = calls st @ DeepScanCall n # new"
    using DeepResult by (simp add: executeDeepScan_step)
  then show ?thesis using ok by blast
qed

lemma loop_trace:
  "\<exists>new. calls (processSystemMessage R m n st) = calls st @ new \<and> okTrace n new"
proof (induction "MAX_AGENTIC_STEPS - n" arbitrary: n m st)
  case 0
  then have lim: "MAX_AGENTIC_STEPS \<le> n" by simp
  show ?case
  proof (cases "n = 0 \<and> isProcessing st")
    case True
    then show ?thesis using okTrace_Nil by (simp add: processSystemMessage_idle)
  next
    case False
    then have np: "n = 0 \<longrightarrow> \<not> isProcessing st" by auto
    have "calls (processSystemMessage R m n st) = calls st @ []"
      by (simp add: processSystemMessage_limit [OF np lim])
    then show ?thesis using okTrace_Nil by blast
  qed
next
  case (Suc k)
  then have lt: "n < MAX_AGENTIC_STEPS" and k: "k = MAX_AGENTIC_STEPS - Suc n" by simp_all
  have ih: "\<And>m st. \<exists>new. calls (processSystemMessage R m (Suc n) st) = calls st @ new
                         \<and> okTrace (Suc n) new"
    using Suc.hyps(1) [OF k] .
  show ?case
  proof (cases "n = 0 \<and> isProcessing st")
    case True
    then show ?thesis using okTrace_Nil by (simp add: processSystemMessage_idle)
  next
    case False
    then have np: "n = 0 \<longrightarrow> \<not> isProcessing st" by auto
    note step = processSystemMessage_step [OF np lt, of R m]
    show ?thesis
    proof (cases "chat R (length (calls st)) m")
      case ChatThrows
      then have "calls (processSystemMessage R m n st) = calls st @ [ChatCall n m]"
        by (simp add: step)
      then show ?thesis using okTrace_chat [OF lt] by blast
    next
      case ChatError
      then have "calls (processSystemMessage R m n st) = calls st @ [ChatCall n m]"
        by (simp add: step)
      then show ?thesis using okTrace_chat [OF lt] by blast
    next
      case (ChatOk t ra)
      let ?st4 = "shownState (chatState st n m) t ra"
      show ?thesis
      proof (cases "filter isQueryAction (snd (parseAIResponse t))")
        case (Cons q qs)
        obtain new where c: "calls (executeQueryActionAgentic R q (Suc n) ?st4)
              = calls ?st4 @ SafeCommandCall (Suc n) (queryTypeOf q) # new"
          and ok: "okTrace (Suc n) new"
          using query_trace_from [of R "Suc n" q ?st4, OF ih] by blast
        have "calls (processSystemMessage R m n st)
                = calls st @ ChatCall n m # SafeCommandCall (Suc n) (queryTypeOf q) # new"
          using ChatOk Cons c by (simp add: step)
        moreover have "okTrace n (ChatCall n m # SafeCommandCall (Suc n) (queryTypeOf q) # new)"
          using okTrace_chat_dispatch [OF lt _ _ ok] by simp
        ultimately show ?thesis by blast
      next
        case Nil
        show ?thesis
        proof (cases "filter isDeepScanAction (snd (parseAIResponse t))")
          case (Cons d ds)
          obtain new where c: "calls (executeDeepScan R (Suc n) ?st4)
                = calls ?st4 @ DeepScanCall (Suc n) # new"
            and ok: "okTrace (Suc n) new"
            using scan_trace_from [of R "Suc n" ?st4, OF ih] by blast
          have "calls (processSystemMessage R m n st)
                  = calls st @ ChatCall n m # DeepScanCall (Suc n) # new"
            using ChatOk Nil Cons c by (simp add: step)
          moreover have "okTrace n (ChatCall n m # DeepScanCall (Suc n) # new)"
            using okTrace_chat_dispatch [OF lt _ _ ok] by simp
          ultimately show ?thesis by blast
        next
          case Nil2: Nil
          have "calls (processSystemMessage R m n st) = calls st @ [ChatCall n m]"
            using ChatOk Nil Nil2 by (simp add: step)
          then show ?thesis using okTrace_chat [OF lt] by blast
        qed
      qed
    qed
  qed
qed

lemma query_trace:
  "\<exists>new. calls (executeQueryActionAgentic R a n st)
            = calls st @ SafeCommandCall n (queryTypeOf a) # new \<and> okTrace n new"
  by (rule query_trace_from) (rule loop_trace)

lemma scan_trace:
  "\<exists>new. calls (executeDeepScan R n st) = calls st @ DeepScanCall n # new \<and> okTrace n new"
  by (rule scan_trace_from) (rule loop_trace)

lemma newCalls_append: "calls st' = calls st @ new \<Longrightarrow> newCalls st st' = new"
  by (simp add: newCalls_def)

lemma first_call_of_step:
  assumes lt: "n < MAX_AGENTIC_STEPS" and np: "n = 0 \<longrightarrow> \<not> isProcessing st"
  shows "\<exists>rest. calls (processSystemMessage R m n st) = calls st @ ChatCall n m # rest"
proof -
  obtain new where c: "calls (processSystemMessage R m n st) = calls st @ new"
    using loop_trace by blast
  note step = processSystemMessage_step [OF np lt, of R m]
  show ?thesis
  proof (cases "chat R (length (calls st)) m")
    case ChatThrows
    then show ?thesis by (simp add: step)
  next
    case ChatError
    then show ?thesis by (simp add: step)
  next
    case (ChatOk t ra)
    let ?st4 = "shownState (chatState st n m) t ra"
    show ?thesis
    proof (cases "filter isQueryAction (snd (parseAIResponse t))")
      case (Cons q qs)
      obtain new where "calls (executeQueryActionAgentic R q (Suc n) ?st4)
              = calls ?st4 @ SafeCommandCall (Suc n) (queryTypeOf q) # new"
        using query_trace by blast
      then show ?thesis using ChatOk Cons by (simp add: step)
    next
      case Nil
      show ?thesis
      proof (cases "filter isDeepScanAction (snd (parseAIResponse t))")
        case (Cons d ds)
        obtain new where "calls (executeDeepScan R (Suc n) ?st4)
                = calls ?st4 @ DeepScanCall (Suc n) # new"
          using scan_trace by blast
        then show ?thesis using ChatOk Nil Cons by (simp add: step)
      next
        case Nil2: Nil
        show ?thesis using ChatOk Nil Nil2 by (simp add: step)
      qed
    qed
  qed
qed

text \<open>Which action of a response a step of the loop dispatches.\<close>

lemma step_dispatch:
  assumes lt: "n < MAX_AGENTIC_STEPS" and np: "n = 0 \<longrightarrow> \<not> isProcessing st"
    and ch: "chat R (length (calls st)) m = ChatOk t ra"
  shows "take 2 (newCalls st (processSystemMessage R m n st)) =
           ChatCall n m #
           (case filter isQueryAction (snd (parseAIResponse t)) of
              q # qs \<Rightarrow> [SafeCommandCall (Suc n) (queryTypeOf q)]
            | [] \<Rightarrow> (case filter isDeepScanAction (snd (parseAIResponse t)) of
                        d # ds \<Rightarrow> [DeepScanCall (Suc n)]
                      | [] \<Rightarrow> []))"
proof -
  note step = processSystemMessage_step [OF np lt, of R m]
  let ?st4 = "shownState (chatState st n m) t ra"
  show ?thesis
  proof (cases "filter isQueryAction (snd (parseAIResponse t))")
    case (Cons q qs)
    obtain new where "calls (executeQueryActionAgentic R q (Suc n) ?st4)
            = calls ?st4 @ SafeCommandCall (Suc n) (queryTypeOf q) # new"
      using query_trace by blast
    then have "calls (processSystemMessage R m n st)
                 = calls st @ (ChatCall n m # SafeCommandCall (Suc n) (queryTypeOf q) # new)"
      using ch Cons by (simp add: step)
    then show ?thesis using Cons by (simp add: newCalls_append)
  next
    case Nil
    show ?thesis
    proof (cases "filter isDeepScanAction (snd (parseAIResponse t))")
      case (Cons d ds)
      obtain new where "calls (executeDeepScan R (Suc n) ?st4)
              = calls ?st4 @ DeepScanCall (Suc n) # new"
        using scan_trace by blast
      then have "calls (processSystemMessage R m n st)
                   = calls st @ (ChatCall n m # DeepScanCall (Suc n) # new)"
        using ch Nil Cons by (simp add: step)
      then show ?thesis using Nil Cons by (simp add: newCalls_append)
    next
      case Nil2: Nil
      have "calls (processSystemMessage R m n st) = calls st @ [ChatCall n m]"
        using ch Nil Nil2 by (simp add: step)
      then show ?thesis using Nil Nil2 by (simp add: newCalls_append)
    qed
  qed
qed

text \<open>While \<^verbatim>\<open>isProcessing\<close> is set, \<^verbatim>\<open>executeQueryAction\<close> runs its command and
  the step that should follow returns at once.\<close>

lemma executeQueryAction_processing:
  assumes "isProcessing st"
  shows "calls (executeQueryAction R a st) = calls st @ [SafeCommandCall 0 (queryTypeOf a)]
         \<and> isProcessing (executeQueryAction R a st)"
proof (cases "runSafe R (length (calls st)) (queryTypeOf a)")
  case (IpcThrows msg)
  then show ?thesis using assms
    by (simp add: executeQueryAction_def executeQueryActionAgentic_step queryState_def)
next
  case (IpcResult r)
  have "isProcessing (feedbackState st a 0 r)" using assms by simp
  then have "processSystemMessage R (feedbackMessage a r) 0 (feedbackState st a 0 r)
               = feedbackState st a 0 r"
    by (simp add: processSystemMessage_idle)
  then show ?thesis using IpcResult assms
    by (simp add: executeQueryAction_def executeQueryActionAgentic_step)
qed

lemma sendMessageAutoExecute_calls:
  "isProcessing st \<Longrightarrow>
     calls (sendMessageAutoExecute R actions st)
       = calls st @ map (\<lambda>a. SafeCommandCall 0 (queryTypeOf a)) (filter isQueryAction actions)
     \<and> isProcessing (sendMessageAutoExecute R actions st)"
proof (induction actions arbitrary: st)
  case Nil
  then show ?case by (simp add: sendMessageAutoExecute_def)
next
  case (Cons a actions)
  show ?case
  proof (cases "isQueryAction a")
    case True
    have p: "isProcessing (executeQueryAction R a st)"
      using executeQueryAction_processing [OF Cons.prems] by simp
    have "sendMessageAutoExecute R (a # actions) st
            = sendMessageAutoExecute R actions (executeQueryAction R a st)"
      using True by (simp add: sendMessageAutoExecute_def)
    then show ?thesis
      using Cons.IH [OF p] executeQueryAction_processing [OF Cons.prems, of R a] True by simp
  next
    case False
    have "sendMessageAutoExecute R (a # actions) st = sendMessageAutoExecute R actions st"
      using False by (simp add: sendMessageAutoExecute_def)
    then show ?thesis using Cons.IH [OF Cons.prems] False by simp
  qed
qed

lemma dispatch_steps_increase:
  "sorted_wrt (<) (dispatchSteps (newCalls st (processSystemMessage R m n st)))
   \<and> list_all (\<lambda>s. n < s \<and> s \<le> MAX_AGENTIC_STEPS)
        (dispatchSteps (newCalls st (processSystemMessage R m n st)))"
proof -
  obtain new where c: "calls (processSystemMessage R m n st) = calls st @ new"
    and ok: "okTrace n new"
    using loop_trace by blast
  show ?thesis using ok by (simp add: newCalls_append [OF c] okTrace_def)
qed

lemma messages_feedbackState [simp]: "messages (feedbackState st a n r) = messages st"
  by (simp add: feedbackState_def queryState_def callRelay_def)

lemma loop_exact:
  assumes H1: "\<forall>i m. \<exists>t ra. chat R i m = ChatOk t ra
                  \<and> (filter isQueryAction (snd (parseAIResponse t)) \<noteq> []
                      \<or> filter isDeepScanAction (snd (parseAIResponse t)) \<noteq> [])"
    and H2: "\<forall>i q. \<exists>r. runSafe R i q = IpcResult r"
    and H3: "\<forall>i. \<exists>e c. runDeepScan R i = DeepResult e c"
  shows "n \<le> MAX_AGENTIC_STEPS \<Longrightarrow> n = 0 \<longrightarrow> \<not> isProcessing st \<Longrightarrow>
     \<exists>new ms. calls (processSystemMessage R m n st) = calls st @ new
        \<and> chatSteps new = [n..<MAX_AGENTIC_STEPS]
        \<and> dispatchSteps new = [Suc n..<Suc MAX_AGENTIC_STEPS]
        \<and> messages (processSystemMessage R m n st) = ms @ [Message summaryMessage ''assistant'' []]
        \<and> \<not> isProcessing (processSystemMessage R m n st)"
proof (induction "MAX_AGENTIC_STEPS - n" arbitrary: n m st)
  case 0
  then have eq: "n = MAX_AGENTIC_STEPS" by simp
  have lim: "MAX_AGENTIC_STEPS \<le> n" using eq by simp
  have "processSystemMessage R m n st
          = (addMessage summaryMessage ''assistant'' [] st)\<lparr>isProcessing := False\<rparr>"
    using processSystemMessage_limit [OF "0.prems"(2) lim] .
  then have "calls (processSystemMessage R m n st) = calls st @ []
        \<and> chatSteps [] = [n..<MAX_AGENTIC_STEPS]
        \<and> dispatchSteps [] = [Suc n..<Suc MAX_AGENTIC_STEPS]
        \<and> messages (processSystemMessage R m n st) = messages st @ [Message summaryMessage ''assistant'' []]
        \<and> \<not> isProcessing (processSystemMessage R m n st)"
    using eq by (simp add: chatSteps_def dispatchSteps_def)
  then show ?case by blast
next
  case (Suc k)
  then have lt: "n < MAX_AGENTIC_STEPS" and k: "k = MAX_AGENTIC_STEPS - Suc n"
    and le: "Suc n \<le> MAX_AGENTIC_STEPS" by simp_all
  note step = processSystemMessage_step [OF Suc.prems(2) lt, of R m]
  obtain t ra where ch: "chat R (length (calls st)) m = ChatOk t ra"
    and act: "filter isQueryAction (snd (parseAIResponse t)) \<noteq> []
              \<or> filter isDeepScanAction (snd (parseAIResponse t)) \<noteq> []"
    using H1 by blast
  let ?st4 = "shownState (chatState st n m) t ra"
  have "\<exists>d m' st5. isDispatch d \<and> stepOf d = Suc n \<and> calls st5 = calls st @ [ChatCall n m, d]
           \<and> processSystemMessage R m n st = processSystemMessage R m' (Suc n) st5"
  proof (cases "filter isQueryAction (snd (parseAIResponse t))")
    case (Cons q qs)
    obtain r where r: "runSafe R (length (calls ?st4)) (queryTypeOf q) = IpcResult r"
      using H2 by blast
    have "processSystemMessage R m n st
            = processSystemMessage R (feedbackMessage q r) (Suc n) (feedbackState ?st4 q (Suc n) r)"
      using ch Cons r by (simp add: step executeQueryActionAgentic_step)
    moreover have "calls (feedbackState ?st4 q (Suc n) r)
                     = calls st @ [ChatCall n m, SafeCommandCall (Suc n) (queryTypeOf q)]"
      by simp
    moreover have "isDispatch (SafeCommandCall (Suc n) (queryTypeOf q))
                   \<and> stepOf (SafeCommandCall (Suc n) (queryTypeOf q)) = Suc n" by simp
    ultimately show ?thesis by blast
  next
    case Nil
    then obtain d ds where ds: "filter isDeepScanAction (snd (parseAIResponse t)) = d # ds"
      using act by (cases "filter isDeepScanAction (snd (parseAIResponse t))") auto
    obtain e c where r: "runDeepScan R (length (calls ?st4)) = DeepResult e c"
      using H3 by blast
    have "processSystemMessage R m n st
            = processSystemMessage R (systemResultOutput ''deep-scan'' (deepScanSummary e c))
                (Suc n) (scanState ?st4 (Suc n))"
      using ch Nil ds r by (simp add: step executeDeepScan_step)
    moreover have "calls (scanState ?st4 (Suc n)) = calls st @ [ChatCall n m, DeepScanCall (Suc n)]"
      by simp
    moreover have "isDispatch (DeepScanCall (Suc n)) \<and> stepOf (DeepScanCall (Suc n)) = Suc n"
      by simp
    ultimately show ?thesis by blast
  qed
  then obtain d m' st5 where d: "isDispatch d" "stepOf d = Suc n"
    and c5: "calls st5 = calls st @ [ChatCall n m, d]"
    and eq: "processSystemMessage R m n st = processSystemMessage R m' (Suc n) st5"
    by blast
  have np: "Suc n = 0 \<longrightarrow> \<not> isProcessing st5" by simp
  obtain new ms where ih: "calls (processSystemMessage R m' (Suc n) st5) = calls st5 @ new"
      "chatSteps new = [Suc n..<MAX_AGENTIC_STEPS]"
      "dispatchSteps new = [Suc (Suc n)..<Suc MAX_AGENTIC_STEPS]"
      "messages (processSystemMessage R m' (Suc n) st5) = ms @ [Message summaryMessage ''assistant'' []]"
      "\<not> isProcessing (processSystemMessage R m' (Suc n) st5)"
    using Suc.hyps(1) [OF k le np, of m'] by blast
  have a: "calls (processSystemMessage R m n st) = calls st @ (ChatCall n m # d # new)"
    using eq ih(1) c5 by simp
  have b: "chatSteps (ChatCall n m # d # new) = [n..<MAX_AGENTIC_STEPS]"
    using d ih(2) lt by (simp add: chatSteps_def upt_conv_Cons)
  have c: "dispatchSteps (ChatCall n m # d # new) = [Suc n..<Suc MAX_AGENTIC_STEPS]"
    using d ih(3) lt by (simp add: dispatchSteps_def upt_conv_Cons)
  show ?case using a b c ih(4,5) eq by metis
qed

lemma okTrace_steps_bounded:
  assumes "okTrace n new"
  shows "list_all (\<lambda>c. stepOf c \<le> MAX_AGENTIC_STEPS) new"
proof -
  have "stepOf c \<le> MAX_AGENTIC_STEPS" if c: "c \<in> set new" for c
  proof (cases "isDispatch c")
    case True
    then have "stepOf c \<in> set (dispatchSteps new)" using c by (simp add: dispatchSteps_def)
    then show ?thesis using assms by (auto simp: okTrace_def list_all_iff)
  next
    case False
    then have "stepOf c \<in> set (chatSteps new)" using c by (simp add: chatSteps_def)
    then have "stepOf c < MAX_AGENTIC_STEPS" using assms by (auto simp: okTrace_def list_all_iff)
    then show ?thesis by simp
  qed
  then show ?thesis by (simp add: list_all_iff)
qed

lemma uptimeReply_actions:
  "snd (parseAIResponse uptimeReply) = [[(''type'', ''query-system''), (''queryType'', ''uptime'')]]"
  by code_simp

lemma twoTagReply_actions:
  "snd (parseAIResponse twoTagReply)
     = [[(''type'', ''run-deep-scan'')], [(''type'', ''query-system''), (''queryType'', ''disk-usage'')]]"
  by code_simp

lemma twoQueryReply_actions:
  "snd (parseAIResponse twoQueryReply)
     = [[(''type'', ''query-system''), (''queryType'', ''uptime'')],
        [(''type'', ''query-system''), (''queryType'', ''disk-usage'')]]"
  by code_simp

lemma killReply_parse:
  "parseAIResponse killReply
     = (''Closing it.'', [[(''type'', ''kill-process''), (''processName'', ''Chrome'')]])"
  by code_simp

lemma step_without_action:
  assumes lt: "n < MAX_AGENTIC_STEPS" and np: "n = 0 \<longrightarrow> \<not> isProcessing st"
    and ch: "chat R (length (calls st)) m = ChatOk t ra"
    and nq: "filter isQueryAction (snd (parseAIResponse t)) = []"
    and nd: "filter isDeepScanAction (snd (parseAIResponse t)) = []"
  shows "processSystemMessage R m n st
           = setStatus ''online'' ''Ready to help'' (shownState (chatState st n m) t ra)"
  using ch nq nd by (simp add: processSystemMessage_step [OF np lt])

lemma messages_shownState:
  "messages (shownState (chatState st n m) t ra)
     = messages st @ [Message (fst (parseAIResponse t)) ''assistant''
                        (ra @ filter (\<lambda>a. \<not> isAutoExec a) (snd (parseAIResponse t)))]"
  by (simp add: shownState_def chatState_def callRelay_def)

lemma session_exact:
  assumes H1: "\<forall>i msg. \<exists>t ra. chat R i msg = ChatOk t ra
                  \<and> (filter isQueryAction (snd (parseAIResponse t)) \<noteq> []
                      \<or> filter isDeepScanAction (snd (parseAIResponse t)) \<noteq> [])"
    and H2: "\<forall>i q. \<exists>r. runSafe R i q = IpcResult r"
    and H3: "\<forall>i. \<exists>e c. runDeepScan R i = DeepResult e c"
    and np: "\<not> isProcessing st"
  shows "\<exists>new ms. calls (executeQueryAction R a st)
                     = calls st @ SafeCommandCall 0 (queryTypeOf a) # new
        \<and> chatSteps new = [0..<MAX_AGENTIC_STEPS]
        \<and> dispatchSteps new = [Suc 0..<Suc MAX_AGENTIC_STEPS]
        \<and> messages (executeQueryAction R a st) = ms @ [Message summaryMessage ''assistant'' []]
        \<and> \<not> isProcessing (executeQueryAction R a st)"
proof -
  obtain r where r: "runSafe R (length (calls st)) (queryTypeOf a) = IpcResult r"
    using H2 by blast
  let ?st2 = "feedbackState st a 0 r"
  have eq: "executeQueryAction R a st = processSystemMessage R (feedbackMessage a r) 0 ?st2"
    using r by (simp add: executeQueryAction_def executeQueryActionAgentic_step)
  have np2: "(0::nat) = 0 \<longrightarrow> \<not> isProcessing ?st2" using np by simp
  obtain new ms where e: "calls (processSystemMessage R (feedbackMessage a r) 0 ?st2) = calls ?st2 @ new"
      "chatSteps new = [0..<MAX_AGENTIC_STEPS]"
      "dispatchSteps new = [Suc 0..<Suc MAX_AGENTIC_STEPS]"
      "messages (processSystemMessage R (feedbackMessage a r) 0 ?st2) = ms @ [Message summaryMessage ''assistant'' []]"
      "\<not> isProcessing (processSystemMessage R (feedbackMessage a r) 0 ?st2)"
    using loop_exact [OF H1 H2 H3 _ np2, of "feedbackMessage a r"] by auto
  have "calls (executeQueryAction R a st) = calls st @ SafeCommandCall 0 (queryTypeOf a) # new"
    using eq e(1) by simp
  then show ?thesis using e eq by metis
qed

lemma session_steps:
  assumes c: "calls st' = calls st @ SafeCommandCall 0 q # new"
    and cs: "chatSteps new = [0..<MAX_AGENTIC_STEPS]"
    and ds: "dispatchSteps new = [Suc 0..<Suc MAX_AGENTIC_STEPS]"
  shows "chatSteps (newCalls st st') = [0..<10] \<and> dispatchSteps (newCalls st st') = [0..<11]
         \<and> length (dispatchSteps (newCalls st st')) = 11"
proof -
  have n: "newCalls st st' = SafeCommandCall 0 q # new" using c by (rule newCalls_append)
  have a: "chatSteps (SafeCommandCall 0 q # new) = [0..<10]"
    using cs by (simp add: chatSteps_def MAX_AGENTIC_STEPS_def)
  have "dispatchSteps (SafeCommandCall 0 q # new) = 0 # [Suc 0..<Suc MAX_AGENTIC_STEPS]"
    using ds by (simp add: dispatchSteps_def)
  also have "\<dots> = [0..<Suc MAX_AGENTIC_STEPS]" by (simp add: upt_conv_Cons)
  also have "\<dots> = [0..<11]" by (simp add: MAX_AGENTIC_STEPS_def)
  finally have b: "dispatchSteps (SafeCommandCall 0 q # new) = [0..<11]" .
  show ?thesis using a b by (simp add: n)
qed

lemma session_steps_bounded:
  "list_all (\<lambda>c. stepOf c \<le> MAX_AGENTIC_STEPS) (newCalls st (executeQueryAction R a st))"
proof -
  obtain new where c: "calls (executeQueryAction R a st)
                         = calls st @ SafeCommandCall 0 (queryTypeOf a) # new"
    and ok: "okTrace 0 new"
    unfolding executeQueryAction_def using query_trace by blast
  have "list_all (\<lambda>c. stepOf c \<le> MAX_AGENTIC_STEPS) (SafeCommandCall 0 (queryTypeOf a) # new)"
    using okTrace_steps_bounded [OF ok] by simp
  then show ?thesis by (simp add: newCalls_append [OF c])
qed




text \<open>
  C9. When \<^verbatim>\<open>runSafeCommand\<close> succeeded with a non-empty output, however long,
  \<^verbatim>\<open>executeQueryActionAgentic\<close> feeds back the text
  \<^verbatim>\<open>[SYSTEM_RESULT: queryType="..." output="..."]\<close> whose output value is the first 1500
  characters of the captured output, and keeps the first 2000 characters in
  \<^verbatim>\<open>lastQueryResult\<close>; below the step limit that text is the message of the next call
  to the backend.
\<close>

theorem system_result_output_truncated:
  "runSafe R (length (calls st)) (queryTypeOf a) = IpcResult r \<Longrightarrow>
   success r \<Longrightarrow> outputText r = Some out \<Longrightarrow> out \<noteq> [] \<Longrightarrow>
     executeQueryActionAgentic R a n st
       = processSystemMessage R (systemResultOutput (queryTypeOf a) (take 1500 out)) n
           ((queryState st a n)\<lparr>lastQueryResult := Some (queryTypeOf a, take 2000 out)\<rparr>)
     \<and> systemResultOutput (queryTypeOf a) (take 1500 out)
          = ''[SYSTEM_RESULT: queryType=\"'' @ queryTypeOf a @ ''\" output=\"'' @ take 1500 out @ ''\"]''
     \<and> length (take 1500 out) \<le> 1500
     \<and> length (take 2000 out) \<le> 2000
     \<and> (n < MAX_AGENTIC_STEPS \<and> (n = 0 \<longrightarrow> \<not> isProcessing st) \<longrightarrow>
          take 2 (newCalls st (executeQueryActionAgentic R a n st))
            = [SafeCommandCall n (queryTypeOf a),
               ChatCall n (systemResultOutput (queryTypeOf a) (take 1500 out))])"
proof -
  assume r: "runSafe R (length (calls st)) (queryTypeOf a) = IpcResult r"
    and s: "success r" and o: "outputText r = Some out" and ne: "out \<noteq> []"
  let ?msg = "systemResultOutput (queryTypeOf a) (take 1500 out)"
  let ?st2 = "(queryState st a n)\<lparr>lastQueryResult := Some (queryTypeOf a, take 2000 out)\<rparr>"
  have fm: "feedbackMessage a r = ?msg"
    using s o ne by (simp add: feedbackMessage_def truthyField_def fieldText_def)
  have fs: "feedbackState st a n r = ?st2"
    using s o ne by (simp add: feedbackState_def truthyField_def fieldText_def)
  have a: "executeQueryActionAgentic R a n st = processSystemMessage R ?msg n ?st2"
    using r fm fs by (simp add: executeQueryActionAgentic_step)
  have b: "?msg = ''[SYSTEM_RESULT: queryType=\"'' @ queryTypeOf a @ ''\" output=\"'' @ take 1500 out @ ''\"]''"
    by (simp add: systemResultOutput_def)
  have c: "take 2 (newCalls st (executeQueryActionAgentic R a n st))
            = [SafeCommandCall n (queryTypeOf a), ChatCall n ?msg]"
    if lt: "n < MAX_AGENTIC_STEPS" and np: "n = 0 \<longrightarrow> \<not> isProcessing st"
  proof -
    have np2: "n = 0 \<longrightarrow> \<not> isProcessing ?st2" using np by (simp add: queryState_def)
    obtain rest where "calls (processSystemMessage R ?msg n ?st2)
                         = calls ?st2 @ ChatCall n ?msg # rest"
      using first_call_of_step [OF lt np2] by blast
    then have "calls (executeQueryActionAgentic R a n st)
                 = calls st @ (SafeCommandCall n (queryTypeOf a) # ChatCall n ?msg # rest)"
      using a by simp
    then show ?thesis by (simp add: newCalls_append)
  qed
  show ?thesis using a b c by simp
qed

theorem system_result_output_truncated_witness:
  "take 2 (newCalls newApp
       (executeQueryActionAgentic (sampleRelay uptimeReply (replicate 3000 (CHR ''x'')))
          [(''type'', ''query-system''), (''queryType'', ''uptime'')] 0 newApp))
     = [SafeCommandCall 0 ''uptime'',
        ChatCall 0 (systemResultOutput ''uptime'' (replicate 1500 (CHR ''x'')))]
   \<and> length (replicate 1500 (CHR ''x'')) \<le> 1500"
proof -
  let ?R = "sampleRelay uptimeReply (replicate 3000 (CHR ''x''))"
  let ?a = "[(''type'', ''query-system''), (''queryType'', ''uptime'')]"
  let ?r = "emptyResult\<lparr>success := True, outputText := Some (replicate 3000 (CHR ''x''))\<rparr>"
  have h1: "runSafe ?R (length (calls newApp)) (queryTypeOf ?a) = IpcResult ?r"
    by (simp add: sampleRelay_def)
  have h2: "success ?r" by simp
  have h3: "outputText ?r = Some (replicate 3000 (CHR ''x''))" by simp
  have h4: "replicate 3000 (CHR ''x'') \<noteq> []" by simp
  have q: "queryTypeOf ?a = ''uptime''" by (simp add: queryTypeOf_def)
  have t: "take 1500 (replicate 3000 (CHR ''x'')) = replicate 1500 (CHR ''x'')" by simp
  have p: "(0::nat) < MAX_AGENTIC_STEPS \<and> ((0::nat) = 0 \<longrightarrow> \<not> isProcessing newApp)"
    by (simp add: MAX_AGENTIC_STEPS_def newApp_def)
  note w = system_result_output_truncated [OF h1 h2 h3 h4, of 0,
      THEN conjunct2, THEN conjunct2, THEN conjunct2, THEN conjunct2]
  have "take 2 (newCalls newApp (executeQueryActionAgentic ?R ?a 0 newApp))
     = [SafeCommandCall 0 ''uptime'',
        ChatCall 0 (systemResultOutput ''uptime'' (replicate 1500 (CHR ''x'')))]"
    using mp [OF w p] unfolding q t .
  then show ?thesis by simp
qed

text \<open>
  C4, as the claim states it, fails twice. In a step of the loop the action dispatched
  need not be the first of the response: of a \<^verbatim>\<open>run-deep-scan\<close> tag followed by a
  \<^verbatim>\<open>query-system\<close> tag the second is dispatched. And at the end of \<^verbatim>\<open>sendMessage\<close> both
  \<^verbatim>\<open>query-system\<close> actions of one response are dispatched.
\<close>

theorem dispatch_not_first_counterexample:
  "snd (parseAIResponse twoTagReply)
     = [[(''type'', ''run-deep-scan'')], [(''type'', ''query-system''), (''queryType'', ''disk-usage'')]]
   \<and> take 2 (newCalls newApp (processSystemMessage (sampleRelay twoTagReply ''ok'') ''go'' 0 newApp))
       = [ChatCall 0 ''go'', SafeCommandCall 1 ''disk-usage'']
   \<and> newCalls (newApp\<lparr>isProcessing := True\<rparr>)
        (sendMessageAutoExecute (sampleRelay twoQueryReply ''ok'')
           (snd (parseAIResponse twoQueryReply)) (newApp\<lparr>isProcessing := True\<rparr>))
       = [SafeCommandCall 0 ''uptime'', SafeCommandCall 0 ''disk-usage'']"
proof -
  let ?R = "sampleRelay twoTagReply ''ok''"
  have lt: "(0::nat) < MAX_AGENTIC_STEPS" by (simp add: MAX_AGENTIC_STEPS_def)
  have np: "(0::nat) = 0 \<longrightarrow> \<not> isProcessing newApp" by (simp add: newApp_def)
  have ch: "chat ?R (length (calls newApp)) ''go'' = ChatOk twoTagReply []"
    by (simp add: sampleRelay_def)
  have a: "take 2 (newCalls newApp (processSystemMessage ?R ''go'' 0 newApp))
       = [ChatCall 0 ''go'', SafeCommandCall 1 ''disk-usage'']"
    using step_dispatch [OF lt np ch]
    by (simp add: twoTagReply_actions isQueryAction_def actionType_def queryTypeOf_def)
  have p: "isProcessing (newApp\<lparr>isProcessing := True\<rparr>)" by simp
  have b: "newCalls (newApp\<lparr>isProcessing := True\<rparr>)
        (sendMessageAutoExecute (sampleRelay twoQueryReply ''ok'')
           (snd (parseAIResponse twoQueryReply)) (newApp\<lparr>isProcessing := True\<rparr>))
       = [SafeCommandCall 0 ''uptime'', SafeCommandCall 0 ''disk-usage'']"
    using sendMessageAutoExecute_calls [OF p, of "sampleRelay twoQueryReply ''ok''"
            "snd (parseAIResponse twoQueryReply)"]
    by (simp add: newCalls_def twoQueryReply_actions isQueryAction_def actionType_def
          queryTypeOf_def)
  show ?thesis using a b twoTagReply_actions by simp
qed

text \<open>
  C4, amended. In the loop entered by \<^verbatim>\<open>processSystemMessage\<close> the steps of the
  dispatching calls increase strictly, so at most one action is dispatched in a step.
  The action dispatched in a step is the first \<^verbatim>\<open>query-system\<close> action of the response
  that has a \<^verbatim>\<open>queryType\<close>; without one it is a deep scan when the response has a
  \<^verbatim>\<open>run-deep-scan\<close> action; otherwise nothing is dispatched. At the end of
  \<^verbatim>\<open>sendMessage\<close> (where \<^verbatim>\<open>isProcessing\<close> is set) every \<^verbatim>\<open>query-system\<close> action of the
  response that has a \<^verbatim>\<open>queryType\<close> is dispatched, in the order of the response.
\<close>

theorem one_dispatch_per_step:
  "sorted_wrt (<) (dispatchSteps (newCalls st (processSystemMessage R m n st)))
   \<and> (n < MAX_AGENTIC_STEPS \<and> (n = 0 \<longrightarrow> \<not> isProcessing st)
        \<and> chat R (length (calls st)) m = ChatOk t ra
      \<longrightarrow> take 2 (newCalls st (processSystemMessage R m n st)) =
           ChatCall n m #
           (case filter isQueryAction (snd (parseAIResponse t)) of
              q # qs \<Rightarrow> [SafeCommandCall (Suc n) (queryTypeOf q)]
            | [] \<Rightarrow> (case filter isDeepScanAction (snd (parseAIResponse t)) of
                        d # ds \<Rightarrow> [DeepScanCall (Suc n)]
                      | [] \<Rightarrow> [])))
   \<and> (isProcessing st2
      \<longrightarrow> newCalls st2 (sendMessageAutoExecute R actions st2)
           = map (\<lambda>a. SafeCommandCall 0 (queryTypeOf a)) (filter isQueryAction actions))"
proof -
  have a: "sorted_wrt (<) (dispatchSteps (newCalls st (processSystemMessage R m n st)))"
    using dispatch_steps_increase by blast
  have b: "take 2 (newCalls st (processSystemMessage R m n st)) =
           ChatCall n m #
           (case filter isQueryAction (snd (parseAIResponse t)) of
              q # qs \<Rightarrow> [SafeCommandCall (Suc n) (queryTypeOf q)]
            | [] \<Rightarrow> (case filter isDeepScanAction (snd (parseAIResponse t)) of
                        d # ds \<Rightarrow> [DeepScanCall (Suc n)]
                      | [] \<Rightarrow> []))"
    if "n < MAX_AGENTIC_STEPS" "n = 0 \<longrightarrow> \<not> isProcessing st"
       "chat R (length (calls st)) m = ChatOk t ra"
    using step_dispatch [OF that] .
  have c: "newCalls st2 (sendMessageAutoExecute R actions st2)
           = map (\<lambda>a. SafeCommandCall 0 (queryTypeOf a)) (filter isQueryAction actions)"
    if "isProcessing st2"
    using sendMessageAutoExecute_calls [OF that, of R actions] by (simp add: newCalls_def)
  show ?thesis using a b c by blast
qed

theorem one_dispatch_per_step_witness:
  "(0::nat) < MAX_AGENTIC_STEPS \<and> \<not> isProcessing newApp
   \<and> chat (sampleRelay twoQueryReply ''ok'') (length (calls newApp)) ''go'' = ChatOk twoQueryReply []
   \<and> take 2 (newCalls newApp (processSystemMessage (sampleRelay twoQueryReply ''ok'') ''go'' 0 newApp))
       = [ChatCall 0 ''go'', SafeCommandCall 1 ''uptime'']
   \<and> isProcessing (newApp\<lparr>isProcessing := True\<rparr>)
   \<and> newCalls (newApp\<lparr>isProcessing := True\<rparr>)
        (sendMessageAutoExecute (sampleRelay twoQueryReply ''ok'')
           (snd (parseAIResponse twoQueryReply)) (newApp\<lparr>isProcessing := True\<rparr>))
       = [SafeCommandCall 0 ''uptime'', SafeCommandCall 0 ''disk-usage'']"
proof -
  let ?R = "sampleRelay twoQueryReply ''ok''"
  have lt: "(0::nat) < MAX_AGENTIC_STEPS" by (simp add: MAX_AGENTIC_STEPS_def)
  have np: "\<not> isProcessing newApp" by (simp add: newApp_def)
  have ch: "chat ?R (length (calls newApp)) ''go'' = ChatOk twoQueryReply []"
    by (simp add: sampleRelay_def)
  have p: "isProcessing (newApp\<lparr>isProcessing := True\<rparr>)" by simp
  show ?thesis
    using lt np ch p
      one_dispatch_per_step [of newApp ?R "''go''" 0 twoQueryReply "[]"
         "newApp\<lparr>isProcessing := True\<rparr>" "snd (parseAIResponse twoQueryReply)"]
    by (simp add: twoQueryReply_actions isQueryAction_def actionType_def queryTypeOf_def)
qed

end
